theory Spec2Isabelle
  imports Complex_Main "HOL-Library.Sublist"
begin

section \<open>Python values\<close>

text \<open>
  A Python \<open>str\<close> is a sequence of Unicode code points, so text is a list of code points
  (natural numbers); \<open>py\<close> turns an ASCII literal into such a text.
\<close>

type_synonym pystr = "nat list"

definition py :: "string \<Rightarrow> pystr" where
  "py s = map of_char s"

text \<open>
  A Python \<open>float\<close> is a finite double (a rational), an infinity or a NaN. The rounding of
  float arithmetic is not modelled: finite values are exact rationals.
\<close>

datatype pyfloat = Fin rat | PInf | NInf | NaN

text \<open>The values a decoded JSON document or an action parameter can hold.\<close>

datatype pyval =
    VNone
  | VBool bool
  | VInt int
  | VFloat pyfloat
  | VStr pystr
  | VList "pyval list"
  | VDict "(pystr \<times> pyval) list"

type_synonym dict = "(pystr \<times> pyval) list"

datatype error = ValueError | KeyError | TypeError | IndexError | AttributeError

text \<open>
  The builtins of the interpreter that the source calls and that are not code of the
  repository are parameters of the model:
  \<^item> \<open>uni_alnum\<close>: \<open>str.isalnum\<close> on a code point beyond ASCII (the Unicode database);
  \<^item> \<open>py_float\<close>: \<open>float(s)\<close>, with \<open>None\<close> for \<open>ValueError\<close>;
  \<^item> \<open>py_format\<close>: the text an f-string puts for a value (\<open>str(v)\<close>);
  \<^item> \<open>py_dumps\<close>: \<open>json.dumps\<close>.
\<close>

record builtins =
  uni_alnum :: "nat \<Rightarrow> bool"
  py_float :: "pystr \<Rightarrow> pyfloat option"
  py_format :: "pyval \<Rightarrow> pystr"
  py_dumps :: "pyval \<Rightarrow> pystr"

subsection \<open>Character classes\<close>

text \<open>
  \<open>\w\<close> in a \<open>str\<close> pattern: \<open>ch.isalnum() or ch == '_'\<close>. On ASCII these are the digits,
  the letters and the underscore.
\<close>

definition is_word :: "builtins \<Rightarrow> nat \<Rightarrow> bool" where
  "is_word B c =
     (if c < 128
      then (48 \<le> c \<and> c \<le> 57) \<or> (65 \<le> c \<and> c \<le> 90) \<or> (97 \<le> c \<and> c \<le> 122) \<or> c = 95
      else uni_alnum B c)"

text \<open>\<open>str.isspace\<close> for one code point: the whitespace table of CPython.\<close>

definition isspace :: "nat \<Rightarrow> bool" where
  "isspace c =
     ((9 \<le> c \<and> c \<le> 13) \<or> (28 \<le> c \<and> c \<le> 32) \<or> c = 133 \<or> c = 160 \<or> c = 5760
      \<or> (8192 \<le> c \<and> c \<le> 8202) \<or> c = 8232 \<or> c = 8233 \<or> c = 8239 \<or> c = 8287
      \<or> c = 12288)"

text \<open>\<open>s.strip()\<close>: leading and trailing whitespace removed, nothing else.\<close>

definition strip :: "pystr \<Rightarrow> pystr" where
  "strip s = rev (dropWhile isspace (rev (dropWhile isspace s)))"

text \<open>\<open>s.split(sep)\<close> for a one-character separator: always at least one field.\<close>

fun split_on :: "nat \<Rightarrow> pystr \<Rightarrow> pystr list" where
  "split_on sep [] = [[]]"
| "split_on sep (c # cs) =
     (let ps = split_on sep cs
      in if c = sep then [] # ps else (c # hd ps) # tl ps)"

subsection \<open>An instance of the builtins on ASCII text\<close>

text \<open>
  Examples are evaluated with this instance. \<open>ascii_float\<close> reads the float literals of
  the language reference written in ASCII (sign, digits with single underscores between
  them, fraction, exponent, \<open>inf\<close>, \<open>infinity\<close>, \<open>nan\<close>, surrounding whitespace), as an
  exact value when it is finite; \<open>ascii_format\<close> is \<open>str\<close> on strings, integers, booleans and \<open>None\<close>.
  No example formats another value or calls \<open>py_dumps\<close>, and none holds a character
  beyond ASCII.
\<close>

definition isdigit :: "nat \<Rightarrow> bool" where
  "isdigit c = (48 \<le> c \<and> c \<le> 57)"

fun digitpart :: "pystr \<Rightarrow> nat list \<times> pystr" where
  "digitpart [] = ([], [])"
| "digitpart (c # cs) =
     (if isdigit c then
        (case cs of
           u # d # r \<Rightarrow>
             if u = 95 \<and> isdigit d
             then (let (ds, rest) = digitpart (d # r) in ((c - 48) # ds, rest))
             else (let (ds, rest) = digitpart cs in ((c - 48) # ds, rest))
         | _ \<Rightarrow> (let (ds, rest) = digitpart cs in ((c - 48) # ds, rest)))
      else ([], c # cs))"

definition decimal :: "nat list \<Rightarrow> nat" where
  "decimal ds = foldl (\<lambda>n d. 10 * n + d) 0 ds"

definition scale10 :: "nat \<Rightarrow> int \<Rightarrow> rat" where
  "scale10 n k = (if 0 \<le> k then of_nat n * 10 ^ nat k else of_nat n / 10 ^ nat (- k))"

definition lower :: "pystr \<Rightarrow> pystr" where
  "lower s = map (\<lambda>c. if 65 \<le> c \<and> c \<le> 90 then c + 32 else c) s"

definition sign_of :: "pystr \<Rightarrow> bool \<times> pystr" where
  "sign_of s =
     (case s of
        [] \<Rightarrow> (False, [])
      | c # cs \<Rightarrow> if c = 45 then (True, cs) else if c = 43 then (False, cs) else (False, s))"

definition exponent :: "pystr \<Rightarrow> int option" where
  "exponent s =
     (case s of
        [] \<Rightarrow> Some 0
      | c # cs \<Rightarrow>
          if c = 101 \<or> c = 69 then
            (let (neg, r) = sign_of cs; (ds, rest) = digitpart r
             in if ds = [] \<or> rest \<noteq> [] then None
                else Some (if neg then - int (decimal ds) else int (decimal ds)))
          else None)"

definition floatnumber :: "pystr \<Rightarrow> rat option" where
  "floatnumber s =
     (let (ip, r) = digitpart s
      in case r of
           c # cs \<Rightarrow>
             if c = 46 then
               (let (fp, r') = digitpart cs
                in if ip = [] \<and> fp = [] then None
                   else map_option (\<lambda>e. scale10 (decimal (ip @ fp)) (e - int (length fp)))
                          (exponent r'))
             else if ip = [] then None
             else map_option (scale10 (decimal ip)) (exponent r)
         | [] \<Rightarrow> if ip = [] then None else Some (of_nat (decimal ip)))"

text \<open>
  \<open>float\<close> trims the ASCII whitespace (tab to carriage return, and the space) and the
  whitespace beyond ASCII, but not the separators 28 to 31. A magnitude of at least
  \<open>2 ^ 1024 - 2 ^ 970\<close> rounds to an infinity.
\<close>

definition float_space :: "nat \<Rightarrow> bool" where
  "float_space c = ((9 \<le> c \<and> c \<le> 13) \<or> c = 32 \<or> (127 \<le> c \<and> isspace c))"

definition float_strip :: "pystr \<Rightarrow> pystr" where
  "float_strip s = rev (dropWhile float_space (rev (dropWhile float_space s)))"

definition ascii_float :: "pystr \<Rightarrow> pyfloat option" where
  "ascii_float s =
     (let (neg, body) = sign_of (float_strip s)
      in if lower body = py ''inf'' \<or> lower body = py ''infinity''
         then Some (if neg then NInf else PInf)
         else if lower body = py ''nan'' then Some NaN
         else map_option
                (\<lambda>q. if 2 ^ 1024 - 2 ^ 970 \<le> q then (if neg then NInf else PInf)
                     else Fin (if neg then - q else q))
                (floatnumber body))"

function digits_of :: "nat \<Rightarrow> pystr" where
  "digits_of n = (if n < 10 then [48 + n] else digits_of (n div 10) @ [48 + n mod 10])"
  by pat_completeness auto
termination
  by (relation "measure id") auto

definition ascii_format :: "pyval \<Rightarrow> pystr" where
  "ascii_format v =
     (case v of
        VStr s \<Rightarrow> s
      | VInt i \<Rightarrow> (if i < 0 then 45 # digits_of (nat (- i)) else digits_of (nat i))
      | VBool b \<Rightarrow> (if b then py ''True'' else py ''False'')
      | VNone \<Rightarrow> py ''None''
      | _ \<Rightarrow> py ''<object>'')"

definition ascii_builtins :: builtins where
  "ascii_builtins =
     \<lparr>uni_alnum = (\<lambda>c. False), py_float = ascii_float,
      py_format = ascii_format, py_dumps = ascii_format\<rparr>"

section \<open>Action parsing (brain.py)\<close>

text \<open>
  \<open>_ACTION_PATTERN = re.compile(r"\[ACTION:(\w+)(?::([^\]]*))?\]")\<close>.

  \<open>strip_prefix p s\<close> is the rest of \<open>s\<close> after the literal \<open>p\<close>. \<open>match_at B s\<close> is the
  match of the pattern at the start of \<open>s\<close>: group 1, group 2 (\<open>None\<close> when the optional
  group did not take part) and the text after the match. The greedy \<open>\w+\<close> takes the
  longest run of word characters, the optional group a colon and the longest run of
  characters other than \<open>]\<close>.
\<close>

fun strip_prefix :: "'a list \<Rightarrow> 'a list \<Rightarrow> 'a list option" where
  "strip_prefix [] s = Some s"
| "strip_prefix (p # ps) [] = None"
| "strip_prefix (p # ps) (c # cs) = (if p = c then strip_prefix ps cs else None)"

type_synonym groups = "pystr \<times> pystr option"

definition match_at :: "builtins \<Rightarrow> pystr \<Rightarrow> (groups \<times> pystr) option" where
  "match_at B s =
     (case strip_prefix (py ''[ACTION:'') s of
        None \<Rightarrow> None
      | Some r \<Rightarrow>
          (let w = takeWhile (is_word B) r; r1 = dropWhile (is_word B) r
           in if w = [] then None
              else (case r1 of
                      [] \<Rightarrow> None
                    | c # r2 \<Rightarrow>
                        if c = 93 then Some ((w, None), r2)
                        else if c = 58 then
                          (let p = takeWhile (\<lambda>c. c \<noteq> 93) r2;
                               r3 = dropWhile (\<lambda>c. c \<noteq> 93) r2
                           in case r3 of
                                [] \<Rightarrow> None
                              | _ # r4 \<Rightarrow> Some ((w, Some p), r4))
                        else None)))"

text \<open>
  The scan of the regular-expression engine over the text, from left to right: at each
  position either the pattern matches there, and the scan resumes where the match ended,
  or the character is passed over. \<open>_ACTION_PATTERN.finditer(text)\<close> yields the matches
  in this order; \<open>_ACTION_PATTERN.sub("", text)\<close> keeps the characters passed over.
\<close>

function scan :: "builtins \<Rightarrow> pystr \<Rightarrow> (nat + groups) list" where
  "scan B [] = []"
| "scan B (c # cs) =
     (case match_at B (c # cs) of
        None \<Rightarrow> Inl c # scan B cs
      | Some mr \<Rightarrow> Inr (fst mr) # scan B (snd mr))"
  by pat_completeness auto
termination
proof (relation "measure (\<lambda>(B, s). length s)")
  show "wf (measure (\<lambda>(B :: builtins, s :: pystr). length s))"
    by simp
next
  fix B :: builtins and c :: nat and cs :: pystr
  show "((B, cs), (B, c # cs)) \<in> measure (\<lambda>(B, s). length s)"
    by simp
next
  fix B :: builtins and c :: nat and cs :: pystr and mr :: "groups \<times> pystr"
  assume m: "match_at B (c # cs) = Some mr"
  then obtain r where r: "strip_prefix (py ''[ACTION:'') (c # cs) = Some r"
    by (auto simp: match_at_def split: option.splits)
  have "strip_prefix p s = Some t \<Longrightarrow> length s = length p + length t"
    for p s t :: pystr
    by (induction p s rule: strip_prefix.induct) (auto split: if_splits)
  from this [OF r] have s: "length (c # cs) = length r + 8"
    by (simp add: py_def)
  have w: "length (dropWhile (is_word B) r) \<le> length r"
    by (rule length_dropWhile_le)
  have "length (snd mr) < length (c # cs)"
  proof (cases "dropWhile (is_word B) r")
    case Nil
    with m r show ?thesis
      by (auto simp: match_at_def Let_def split: if_splits)
  next
    case (Cons d r2)
    have p: "length (dropWhile (\<lambda>c. c \<noteq> 93) r2) \<le> length r2"
      by (rule length_dropWhile_le)
    from w Cons have "length r2 < length r" by simp
    with m r Cons p s show ?thesis
      by (auto simp: match_at_def Let_def split: if_splits list.splits)
  qed
  then show "((B, snd mr), (B, c # cs)) \<in> measure (\<lambda>(B, s). length s)"
    by simp
qed

definition finditer :: "builtins \<Rightarrow> pystr \<Rightarrow> groups list" where
  "finditer B s = [m. Inr m \<leftarrow> scan B s]"

definition sub_empty :: "builtins \<Rightarrow> pystr \<Rightarrow> pystr" where
  "sub_empty B s = [c. Inl c \<leftarrow> scan B s]"

text \<open>An action is the dictionary \<open>{"action": ..., "params": {...}}\<close>.\<close>

record action =
  action :: pystr
  params :: dict

text \<open>
  The body of the loop of \<open>_extract_actions\<close> for one match: the action it appends
  (\<open>None\<close> when it appends nothing), or the exception it raises.
\<close>

definition action_of :: "builtins \<Rightarrow> groups \<Rightarrow> error + action option" where
  "action_of B m =
     (let action_type = fst m;
          param = (case snd m of None \<Rightarrow> [] | Some p \<Rightarrow> p)
      in if action_type = py ''send_chat'' then
           Inr (Some \<lparr>action = py ''send_chat'', params = [(py ''message'', VStr param)]\<rparr>)
         else if action_type = py ''follow_player'' then
           Inr (Some \<lparr>action = py ''follow_player'', params = [(py ''name'', VStr param)]\<rparr>)
         else if action_type = py ''stop_follow'' then
           Inr (Some \<lparr>action = py ''stop_follow'', params = []\<rparr>)
         else if action_type = py ''look_at'' then
           (let parts = split_on 44 param
            in if length parts = 3 then
                 (case py_float B (parts ! 0) of
                    None \<Rightarrow> Inl ValueError
                  | Some x \<Rightarrow>
                      (case py_float B (parts ! 1) of
                         None \<Rightarrow> Inl ValueError
                       | Some y \<Rightarrow>
                           (case py_float B (parts ! 2) of
                              None \<Rightarrow> Inl ValueError
                            | Some z \<Rightarrow>
                                Inr (Some \<lparr>action = py ''look_at'',
                                  params = [(py ''x'', VFloat x), (py ''y'', VFloat y),
                                            (py ''z'', VFloat z)]\<rparr>))))
               else Inr None)
         else if action_type = py ''eat'' then
           Inr (Some \<lparr>action = py ''eat'', params = []\<rparr>)
         else if action_type = py ''attack_mob'' then
           Inr (Some \<lparr>action = py ''attack_mob'',
             params = [(py ''name'', if param \<noteq> [] then VStr param else VNone)]\<rparr>)
         else if action_type = py ''flee'' then
           Inr (Some \<lparr>action = py ''flee'', params = []\<rparr>)
         else if action_type = py ''stop_attack'' then
           Inr (Some \<lparr>action = py ''stop_attack'', params = []\<rparr>)
         else Inr None)"

text \<open>The loop: \<open>actions\<close> grows by \<open>append\<close>; an exception ends it.\<close>

fun collect :: "builtins \<Rightarrow> groups list \<Rightarrow> action list \<Rightarrow> error + action list" where
  "collect B [] actions = Inr actions"
| "collect B (m # ms) actions =
     (case action_of B m of
        Inl e \<Rightarrow> Inl e
      | Inr None \<Rightarrow> collect B ms actions
      | Inr (Some a) \<Rightarrow> collect B ms (actions @ [a]))"

definition extract_actions :: "builtins \<Rightarrow> pystr \<Rightarrow> error + (pystr \<times> action list)" where
  "extract_actions B text =
     (case collect B (finditer B text) [] of
        Inl e \<Rightarrow> Inl e
      | Inr actions \<Rightarrow> Inr (strip (sub_empty B text), actions))"

section \<open>Conversation history (brain.py)\<close>

subsection \<open>Dictionaries and the operators used on decoded JSON\<close>

text \<open>
  A dictionary is an association list with distinct keys: \<open>map_of d k\<close> is \<open>d.get(k)\<close>,
  \<open>dict_set\<close> is \<open>d[k] = v\<close> and \<open>dict_update\<close> is \<open>d.update(other)\<close>.
\<close>

fun dict_set :: "pystr \<Rightarrow> pyval \<Rightarrow> dict \<Rightarrow> dict" where
  "dict_set k v [] = [(k, v)]"
| "dict_set k v (e # d) = (if fst e = k then (k, v) # d else e # dict_set k v d)"

definition dict_update :: "dict \<Rightarrow> dict \<Rightarrow> dict" where
  "dict_update d other = foldl (\<lambda>d e. dict_set (fst e) (snd e) d) d other"

definition dict_get :: "dict \<Rightarrow> pystr \<Rightarrow> pyval \<Rightarrow> pyval" where
  "dict_get d k dflt = (case map_of d k of None \<Rightarrow> dflt | Some v \<Rightarrow> v)"

text \<open>The truth value of an object in a condition.\<close>

fun truthy :: "pyval \<Rightarrow> bool" where
  "truthy VNone = False"
| "truthy (VBool b) = b"
| "truthy (VInt i) = (i \<noteq> 0)"
| "truthy (VFloat f) = (f \<noteq> Fin 0)"
| "truthy (VStr s) = (s \<noteq> [])"
| "truthy (VList l) = (l \<noteq> [])"
| "truthy (VDict d) = (d \<noteq> [])"

text \<open>
  \<open>v[:n]\<close> as the sequence a generator then walks: a list or a string can be sliced
  (a string yields one-character strings); a dictionary, a number, a boolean or \<open>None\<close>
  cannot (for a dictionary the exception is \<open>TypeError\<close> up to Python 3.11, where a slice
  is unhashable).
\<close>

fun slice_to :: "nat \<Rightarrow> pyval \<Rightarrow> error + pyval list" where
  "slice_to n (VList l) = Inr (take n l)"
| "slice_to n (VStr s) = Inr (map (\<lambda>c. VStr [c]) (take n s))"
| "slice_to n v = Inl TypeError"

text \<open>\<open>v[key]\<close> with a string key: only a dictionary accepts it.\<close>

fun subscript :: "pyval \<Rightarrow> pystr \<Rightarrow> error + pyval" where
  "subscript (VDict d) k = (case map_of d k of None \<Rightarrow> Inl KeyError | Some v \<Rightarrow> Inr v)"
| "subscript v k = Inl TypeError"

text \<open>\<open>sep.join(parts)\<close>.\<close>

fun join :: "pystr \<Rightarrow> pystr list \<Rightarrow> pystr" where
  "join sep [] = []"
| "join sep [p] = p"
| "join sep (p # q # ps) = p @ sep @ join sep (q # ps)"

text \<open>A generator expression: the elements in order, stopping at the first exception.\<close>

fun map_raise :: "('a \<Rightarrow> error + 'b) \<Rightarrow> 'a list \<Rightarrow> error + 'b list" where
  "map_raise f [] = Inr []"
| "map_raise f (x # xs) =
     (case f x of
        Inl e \<Rightarrow> Inl e
      | Inr y \<Rightarrow> (case map_raise f xs of Inl e \<Rightarrow> Inl e | Inr ys \<Rightarrow> Inr (y # ys)))"

subsection \<open>Rendering the game state\<close>

text \<open>
  \<open>_roman(n)\<close>: the dictionary \<open>{1: "I", ..., 5: "V"}\<close> looked up with \<open>n\<close>, which finds
  an integer and the float equal to it alike; \<open>str(n)\<close> otherwise.
\<close>

definition roman_numeral :: "rat \<Rightarrow> pystr option" where
  "roman_numeral q =
     (if q = 1 then Some (py ''I'') else if q = 2 then Some (py ''II'')
      else if q = 3 then Some (py ''III'') else if q = 4 then Some (py ''IV'')
      else if q = 5 then Some (py ''V'') else None)"

definition roman :: "builtins \<Rightarrow> pyval \<Rightarrow> pystr" where
  "roman B n =
     (case n of
        VInt i \<Rightarrow> (case roman_numeral (of_int i) of Some r \<Rightarrow> r | None \<Rightarrow> py_format B n)
      | VFloat (Fin q) \<Rightarrow> (case roman_numeral q of Some r \<Rightarrow> r | None \<Rightarrow> py_format B n)
      | _ \<Rightarrow> py_format B n)"

text \<open>\<open>amp > 0\<close> and \<open>amp + 1\<close> on a number; \<open>TypeError\<close> on anything else.\<close>

fun greater_zero :: "pyval \<Rightarrow> error + bool" where
  "greater_zero (VInt i) = Inr (0 < i)"
| "greater_zero (VBool b) = Inr b"
| "greater_zero (VFloat (Fin q)) = Inr (0 < q)"
| "greater_zero (VFloat PInf) = Inr True"
| "greater_zero (VFloat f) = Inr False"
| "greater_zero v = Inl TypeError"

fun plus_one :: "pyval \<Rightarrow> pyval" where
  "plus_one (VInt i) = VInt (i + 1)"
| "plus_one (VBool b) = VInt ((if b then 1 else 0) + 1)"
| "plus_one (VFloat (Fin q)) = VFloat (Fin (q + 1))"
| "plus_one v = v"

definition fmt_mob :: "builtins \<Rightarrow> pyval \<Rightarrow> error + pystr" where
  "fmt_mob B m =
     (case subscript m (py ''name'') of
        Inl e \<Rightarrow> Inl e
      | Inr n \<Rightarrow>
          (case subscript m (py ''distance'') of
             Inl e \<Rightarrow> Inl e
           | Inr d \<Rightarrow> Inr (py_format B n @ py ''('' @ py_format B d @ py ''blk)'')))"

definition fmt_item :: "builtins \<Rightarrow> pyval \<Rightarrow> error + pystr" where
  "fmt_item B i =
     (case subscript i (py ''name'') of
        Inl e \<Rightarrow> Inl e
      | Inr n \<Rightarrow>
          (case subscript i (py ''count'') of
             Inl e \<Rightarrow> Inl e
           | Inr c \<Rightarrow> Inr (py_format B n @ py ''x'' @ py_format B c)))"

text \<open>
  \<open>_fmt_effect(e)\<close>: \<open>e.get\<close> needs a dictionary (\<open>AttributeError\<close> otherwise);
  \<open>e["name"]\<close> is read first, then the amplifier is compared; the name must be a string
  for \<open>+\<close> to join it with the suffix.
\<close>

definition fmt_effect :: "builtins \<Rightarrow> pyval \<Rightarrow> error + pystr" where
  "fmt_effect B e =
     (case e of
        VDict d \<Rightarrow>
          (let amp = dict_get d (py ''amplifier'') (VInt 0)
           in case subscript e (py ''name'') of
                Inl err \<Rightarrow> Inl err
              | Inr n \<Rightarrow>
                  (case greater_zero amp of
                     Inl err \<Rightarrow> Inl err
                   | Inr pos \<Rightarrow>
                       (case n of
                          VStr s \<Rightarrow>
                            Inr (s @ (if pos then py '' '' @ roman B (plus_one amp) else []))
                        | _ \<Rightarrow> Inl TypeError)))
      | _ \<Rightarrow> Inl AttributeError)"

text \<open>A scalar field: \<open>if key in gs: parts.append(f"label{gs[key]}tail")\<close>.\<close>

definition field_part :: "builtins \<Rightarrow> dict \<Rightarrow> string \<Rightarrow> string \<Rightarrow> string \<Rightarrow> pystr list" where
  "field_part B gs key label tail =
     (case map_of gs (py key) of
        None \<Rightarrow> []
      | Some v \<Rightarrow> [py label @ py_format B v @ py tail])"

text \<open>
  A list field: \<open>xs = gs.get(key, [])\<close>, and when \<open>xs\<close> is true the part
  \<open>f"label[{', '.join(f(x) for x in xs[:n])}]"\<close>.
\<close>

definition list_part ::
  "dict \<Rightarrow> string \<Rightarrow> string \<Rightarrow> nat \<Rightarrow> (pyval \<Rightarrow> error + pystr) \<Rightarrow> error + pystr list" where
  "list_part gs key label n f =
     (let xs = dict_get gs (py key) (VList [])
      in if truthy xs then
           (case slice_to n xs of
              Inl e \<Rightarrow> Inl e
            | Inr ys \<Rightarrow>
                (case map_raise f ys of
                   Inl e \<Rightarrow> Inl e
                 | Inr strs \<Rightarrow> Inr [py label @ py ''['' @ join (py '', '') strs @ py '']'']))
         else Inr [])"

definition format_game_state :: "builtins \<Rightarrow> dict \<Rightarrow> error + pystr" where
  "format_game_state B gs =
     (let parts =
            field_part B gs ''playerHealth'' ''HP:'' ''/20''
            @ field_part B gs ''playerFood'' ''Food:'' ''/20''
            @ field_part B gs ''biome'' ''Biome:'' []
            @ field_part B gs ''timeOfDay'' ''Time:'' []
            @ field_part B gs ''dimension'' ''Dim:'' []
            @ (if truthy (dict_get gs (py ''isRaining'') VNone) then [py ''Raining''] else [])
      in case list_part gs ''nearbyHostile'' ''Hostiles:'' 3 (fmt_mob B) of
           Inl e \<Rightarrow> Inl e
         | Inr hostiles \<Rightarrow>
             (case list_part gs ''inventory'' ''Inv:'' 6 (fmt_item B) of
                Inl e \<Rightarrow> Inl e
              | Inr invent \<Rightarrow>
                  (case list_part gs ''potionEffects'' ''Effects:'' 3 (fmt_effect B) of
                     Inl e \<Rightarrow> Inl e
                   | Inr effects \<Rightarrow>
                       (let parts = parts @ hostiles @ invent @ effects
                        in if parts = [] then Inr []
                           else Inr (py ''[GAME STATE] '' @ join (py '' | '') parts)))))"

subsection \<open>The rolling window\<close>

record turn =
  role :: pystr
  content :: pystr

record conversation_history =
  hmax :: int
  turns :: "turn list"

definition new_history :: "int \<Rightarrow> conversation_history" where
  "new_history max_turns = \<lparr>hmax = max_turns, turns = []\<rparr>"

text \<open>
  \<open>_trim\<close>: \<open>while len(self._turns) > self._max * 2: self._turns.pop(0)\<close>. \<open>pop(0)\<close> on
  the empty list raises \<open>IndexError\<close>, which a negative \<open>_max\<close> reaches. The result is
  the exception, if any, and the list the loop leaves.
\<close>

fun trim :: "int \<Rightarrow> turn list \<Rightarrow> error option \<times> turn list" where
  "trim m [] = (if 0 > m * 2 then (Some IndexError, []) else (None, []))"
| "trim m (t # ts) = (if int (length (t # ts)) > m * 2 then trim m ts else (None, t # ts))"

definition append_turn :: "turn \<Rightarrow> conversation_history \<Rightarrow> error option \<times> conversation_history" where
  "append_turn t h =
     (let r = trim (hmax h) (turns h @ [t]) in (fst r, h\<lparr>turns := snd r\<rparr>))"

text \<open>
  \<open>add_user\<close>: the content is the rendered game state and two newlines when \<open>game_state\<close>
  is a non-empty dictionary, then the text. An exception while rendering leaves the
  history as it was.
\<close>

definition user_content :: "builtins \<Rightarrow> pystr \<Rightarrow> dict option \<Rightarrow> error + pystr" where
  "user_content B text game_state =
     (case game_state of
        None \<Rightarrow> Inr text
      | Some gs \<Rightarrow>
          if gs \<noteq> [] then
            (case format_game_state B gs of
               Inl e \<Rightarrow> Inl e
             | Inr block \<Rightarrow> Inr (block @ [10, 10] @ text))
          else Inr text)"

definition add_user ::
  "builtins \<Rightarrow> pystr \<Rightarrow> dict option \<Rightarrow> conversation_history
     \<Rightarrow> error option \<times> conversation_history" where
  "add_user B text game_state h =
     (case user_content B text game_state of
        Inl e \<Rightarrow> (Some e, h)
      | Inr c \<Rightarrow> append_turn \<lparr>role = py ''user'', content = c\<rparr> h)"

definition add_assistant ::
  "pystr \<Rightarrow> conversation_history \<Rightarrow> error option \<times> conversation_history" where
  "add_assistant text h = append_turn \<lparr>role = py ''assistant'', content = text\<rparr> h"

definition get_messages :: "conversation_history \<Rightarrow> turn list" where
  "get_messages h = turns h"

text \<open>A sequence of appends; an append that raises does not stop the later ones.\<close>

datatype append = AddUser pystr "dict option" | AddAssistant pystr

fun apply_append ::
  "builtins \<Rightarrow> append \<Rightarrow> conversation_history \<Rightarrow> error option \<times> conversation_history" where
  "apply_append B (AddUser text gs) h = add_user B text gs h"
| "apply_append B (AddAssistant text) h = add_assistant text h"

fun run_appends :: "builtins \<Rightarrow> append list \<Rightarrow> conversation_history \<Rightarrow> conversation_history" where
  "run_appends B [] h = h"
| "run_appends B (a # as) h = run_appends B as (snd (apply_append B a h))"

text \<open>The turn an append builds, when building it does not raise.\<close>

fun turn_of :: "builtins \<Rightarrow> append \<Rightarrow> turn option" where
  "turn_of B (AddUser text gs) =
     (case user_content B text gs of
        Inl e \<Rightarrow> None
      | Inr c \<Rightarrow> Some \<lparr>role = py ''user'', content = c\<rparr>)"
| "turn_of B (AddAssistant text) = Some \<lparr>role = py ''assistant'', content = text\<rparr>"

section \<open>The response engine (brain.py)\<close>

text \<open>
  The values read from \<open>config/settings.json\<close> at import time, which is not among the
  sources: they are parameters. \<open>COOLDOWNS\<close> maps an event type to seconds,
  \<open>MAX_QUEUE_DEPTH\<close> is the \<open>maxsize\<close> of the queue and \<open>HISTORY_LENGTH\<close> the default
  \<open>max_turns\<close>. Times are seconds as exact rationals.
\<close>

record settings =
  cooldowns :: "pystr \<Rightarrow> rat option"
  max_queue_depth :: int
  history_length :: int

subsection \<open>Event prompts\<close>

text \<open>\<open>_build_event_prompt\<close>; the code point 8212 is the dash of two of the templates.\<close>

definition build_event_prompt :: "builtins \<Rightarrow> pystr \<Rightarrow> dict \<Rightarrow> pystr" where
  "build_event_prompt B event_type data =
     (let get = (\<lambda>k d. py_format B (dict_get data (py k) (VStr (py d))))
      in if event_type = py ''mob_spawn'' then
           py ''[EVENT] A '' @ get ''name'' ''something'' @ py '' just spawned ''
             @ get ''distance'' ''?'' @ py '' blocks away from us.''
         else if event_type = py ''player_death'' then
           py ''[EVENT] I just died. Death message: '' @ get ''cause'' ''something''
         else if event_type = py ''health_low'' then
           py ''[EVENT] My health just dropped to '' @ get ''health'' ''?'' @ py '' hearts.''
         else if event_type = py ''weather_change'' then
           py ''[EVENT] Weather changed '' @ [8212] @ py '' it'' @ [39] @ py ''s now ''
             @ get ''weather'' ''unknown'' @ py ''.''
         else if event_type = py ''player_join'' then
           py ''[EVENT] '' @ get ''name'' ''someone'' @ py '' just joined the server.''
         else if event_type = py ''health_critical'' then
           py ''[EVENT] My health is at '' @ get ''health'' ''?'' @ py '' '' @ [8212]
             @ py '' that'' @ [39] @ py ''s critical, we need to act fast.''
         else if event_type = py ''night_fall'' then
           py ''[EVENT] It just turned night. Mobs are going to start spawning.''
         else if event_type = py ''dawn'' then
           py ''[EVENT] Sun'' @ [39] @ py ''s coming up. We made it through the night.''
         else if event_type = py ''biome_change'' then
           py ''[EVENT] We just crossed into a '' @ get ''to'' ''somewhere''
             @ py '' biome (was '' @ get ''from'' ''somewhere'' @ py '').''
         else if event_type = py ''item_pickup'' then
           py ''[EVENT] ''
             @ (if dict_get data (py ''collector'') VNone = VStr (py ''bot'')
                then py ''I'' else py ''You'')
             @ py '' just picked up '' @ get ''item'' ''something'' @ py ''.''
         else if event_type = py ''creeper_nearby'' then
           py ''[EVENT] There'' @ [39] @ py ''s a creeper only '' @ get ''distance'' ''?''
             @ py '' blocks away from us.''
         else if event_type = py ''under_attack'' then
           py ''[EVENT] I'' @ [39] @ py ''m being attacked by a '' @ get ''attacker'' ''something''
             @ py ''! HP: '' @ get ''health'' ''?'' @ py ''. I auto-''
             @ get ''action_taken'' ''nothing'' @ py ''ed.''
         else if event_type = py ''mob_killed'' then
           py ''[EVENT] Just took out a '' @ get ''mob'' ''something'' @ py ''. Nice.''
         else py ''[EVENT] '' @ event_type @ py '': '' @ py_dumps B (VDict data))"

subsection \<open>State\<close>

text \<open>
  The fields of \<open>Brain\<close>: \<open>proactive_lock\<close> is whether the \<open>asyncio.Lock\<close> is held,
  \<open>proactive_queue\<close> the content of the \<open>asyncio.Queue\<close>, oldest first.
\<close>

record brain =
  history :: conversation_history
  game_state :: dict
  voice_active :: bool
  last_event_time :: "pystr \<Rightarrow> rat option"
  proactive_lock :: bool
  proactive_queue :: "(pystr \<times> dict) list"

definition new_brain :: "settings \<Rightarrow> dict \<Rightarrow> brain" where
  "new_brain S gs =
     \<lparr>history = new_history (history_length S), game_state = gs, voice_active = False,
      last_event_time = Map.empty, proactive_lock = False, proactive_queue = []\<rparr>"

definition update_game_state :: "dict \<Rightarrow> brain \<Rightarrow> brain" where
  "update_game_state gs s = s\<lparr>game_state := dict_update (game_state s) gs\<rparr>"

definition set_voice_active :: "bool \<Rightarrow> brain \<Rightarrow> brain" where
  "set_voice_active active s = s\<lparr>voice_active := active\<rparr>"

subsection \<open>The completion call\<close>

text \<open>
  \<open>_call_claude\<close>: the request to the external service either yields a text or raises
  (\<open>None\<close>); every \<open>Exception\<close> is caught and replaced by a fixed utterance.
\<close>

definition fallback :: pystr where
  "fallback = py ''...bruh my brain just lagged, what were you saying?''"

definition call_claude :: "pystr option \<Rightarrow> pystr" where
  "call_claude api_result = (case api_result of None \<Rightarrow> fallback | Some text \<Rightarrow> text)"

text \<open>
  What follows the \<open>await\<close> in \<open>think\<close> and in \<open>handle_game_event\<close>: the actions are
  extracted, then the raw response is appended as the assistant turn. An exception of
  the extractor leaves the history without that turn.
\<close>

type_synonym reply = "pystr \<times> action list"

definition finish :: "builtins \<Rightarrow> pystr \<Rightarrow> brain \<Rightarrow> (error + reply) \<times> brain" where
  "finish B response s =
     (case extract_actions B response of
        Inl e \<Rightarrow> (Inl e, s)
      | Inr r \<Rightarrow>
          (let a = add_assistant response (history s);
               s' = s\<lparr>history := snd a\<rparr>
           in case fst a of Some e \<Rightarrow> (Inl e, s') | None \<Rightarrow> (Inr r, s')))"

subsection \<open>The reactive path\<close>

text \<open>
  \<open>think\<close> runs in two atomic parts, before and after the \<open>await\<close> of the completion
  call: \<open>think_begin\<close> appends the user turn and yields the messages sent, \<open>think_end\<close>
  receives the outcome of the request.
\<close>

definition think_begin :: "builtins \<Rightarrow> pystr \<Rightarrow> brain \<Rightarrow> (error + turn list) \<times> brain" where
  "think_begin B user_input s =
     (let a = add_user B user_input (Some (game_state s)) (history s);
          s' = s\<lparr>history := snd a\<rparr>
      in case fst a of
           Some e \<Rightarrow> (Inl e, s')
         | None \<Rightarrow> (Inr (get_messages (snd a)), s'))"

definition think_end :: "builtins \<Rightarrow> pystr option \<Rightarrow> brain \<Rightarrow> (error + reply) \<times> brain" where
  "think_end B api_result s = finish B (call_claude api_result) s"

text \<open>The whole call, with the external service as a function of the messages.\<close>

definition think ::
  "builtins \<Rightarrow> (turn list \<Rightarrow> pystr option) \<Rightarrow> pystr \<Rightarrow> brain \<Rightarrow> (error + reply) \<times> brain" where
  "think B api user_input s =
     (case think_begin B user_input s of
        (Inl e, s') \<Rightarrow> (Inl e, s')
      | (Inr messages, s') \<Rightarrow> think_end B (api messages) s')"

subsection \<open>The proactive path\<close>

text \<open>
  \<open>handle_game_event\<close> up to its \<open>await\<close>, with \<open>now\<close> the value of \<open>time.time()\<close>: the
  call is suppressed (it returns \<open>None\<close>), it raises, or it holds the lock and waits
  for the completion of the messages it sent. \<open>put_nowait\<close> raises \<open>QueueFull\<close>, which is
  caught, when \<open>maxsize\<close> is positive and reached. An exception inside \<open>async with\<close>
  releases the lock.
\<close>

datatype started = Suppressed | Raised error | Awaiting "turn list"

definition cooldown_of :: "settings \<Rightarrow> pystr \<Rightarrow> rat" where
  "cooldown_of S event_type = (case cooldowns S event_type of None \<Rightarrow> 30 | Some c \<Rightarrow> c)"

definition last_of :: "brain \<Rightarrow> pystr \<Rightarrow> rat" where
  "last_of s event_type = (case last_event_time s event_type of None \<Rightarrow> 0 | Some t \<Rightarrow> t)"

definition queue_full :: "settings \<Rightarrow> brain \<Rightarrow> bool" where
  "queue_full S s =
     (if max_queue_depth S \<le> 0 then False
      else int (length (proactive_queue s)) \<ge> max_queue_depth S)"

definition event_begin ::
  "builtins \<Rightarrow> settings \<Rightarrow> rat \<Rightarrow> pystr \<Rightarrow> dict \<Rightarrow> brain \<Rightarrow> started \<times> brain" where
  "event_begin B S now event_type data s =
     (if voice_active s then (Suppressed, s)
      else if now - last_of s event_type < cooldown_of S event_type then (Suppressed, s)
      else if proactive_lock s then
        (if queue_full S s then (Suppressed, s)
         else (Suppressed, s\<lparr>proactive_queue := proactive_queue s @ [(event_type, data)]\<rparr>))
      else
        (let s1 = s\<lparr>proactive_lock := True,
                     last_event_time := (last_event_time s)(event_type \<mapsto> now)\<rparr>;
             prompt = build_event_prompt B event_type data;
             a = add_user B prompt (Some (game_state s1)) (history s1)
         in case fst a of
              Some e \<Rightarrow> (Raised e, s1\<lparr>history := snd a, proactive_lock := False\<rparr>)
            | None \<Rightarrow> (Awaiting (get_messages (snd a)), s1\<lparr>history := snd a\<rparr>)))"

definition event_end :: "builtins \<Rightarrow> pystr option \<Rightarrow> brain \<Rightarrow> (error + reply) \<times> brain" where
  "event_end B api_result s =
     (let r = finish B (call_claude api_result) s
      in (fst r, (snd r)\<lparr>proactive_lock := False\<rparr>))"

definition handle_game_event ::
  "builtins \<Rightarrow> settings \<Rightarrow> (turn list \<Rightarrow> pystr option) \<Rightarrow> rat \<Rightarrow> pystr \<Rightarrow> dict \<Rightarrow> brain
     \<Rightarrow> (error + reply option) \<times> brain" where
  "handle_game_event B S api now event_type data s =
     (case event_begin B S now event_type data s of
        (Suppressed, s') \<Rightarrow> (Inr None, s')
      | (Raised e, s') \<Rightarrow> (Inl e, s')
      | (Awaiting messages, s') \<Rightarrow>
          (case event_end B (api messages) s' of
             (Inl e, s'') \<Rightarrow> (Inl e, s'')
           | (Inr r, s'') \<Rightarrow> (Inr (Some r), s'')))"

subsection \<open>Interleaved operation\<close>

text \<open>
  The scheduler is cooperative: a coroutine runs until its \<open>await\<close>. A run of the engine is
  therefore a sequence of atomic steps, the two halves of a \<open>think\<close> or of a
  \<open>handle_game_event\<close> being steps of their own, with other steps in between. Each step
  has an outcome for its caller.
\<close>

datatype operation =
    UpdateGameState dict
  | SetVoiceActive bool
  | ThinkBegin pystr
  | ThinkEnd "pystr option"
  | EventBegin rat pystr dict
  | EventEnd "pystr option"

datatype outcome =
    Done
  | Failed error
  | Waiting "turn list"
  | Returned "reply option"

fun step :: "builtins \<Rightarrow> settings \<Rightarrow> operation \<Rightarrow> brain \<Rightarrow> outcome \<times> brain" where
  "step B S (UpdateGameState gs) s = (Done, update_game_state gs s)"
| "step B S (SetVoiceActive b) s = (Done, set_voice_active b s)"
| "step B S (ThinkBegin user_input) s =
     (case think_begin B user_input s of
        (Inl e, s') \<Rightarrow> (Failed e, s')
      | (Inr messages, s') \<Rightarrow> (Waiting messages, s'))"
| "step B S (ThinkEnd api_result) s =
     (case think_end B api_result s of
        (Inl e, s') \<Rightarrow> (Failed e, s')
      | (Inr r, s') \<Rightarrow> (Returned (Some r), s'))"
| "step B S (EventBegin now event_type data) s =
     (case event_begin B S now event_type data s of
        (Suppressed, s') \<Rightarrow> (Returned None, s')
      | (Raised e, s') \<Rightarrow> (Failed e, s')
      | (Awaiting messages, s') \<Rightarrow> (Waiting messages, s'))"
| "step B S (EventEnd api_result) s =
     (case event_end B api_result s of
        (Inl e, s') \<Rightarrow> (Failed e, s')
      | (Inr r, s') \<Rightarrow> (Returned (Some r), s'))"

fun run :: "builtins \<Rightarrow> settings \<Rightarrow> operation list \<Rightarrow> brain \<Rightarrow> outcome list \<times> brain" where
  "run B S [] s = ([], s)"
| "run B S (x # xs) s =
     (let a = step B S x s; b = run B S xs (snd a) in (fst a # fst b, snd b))"

section \<open>The bridge server (ws_server.py)\<close>

text \<open>
  The state of \<open>WSServer\<close> that sending reads and writes: the connection slot, and the
  messages handed to the peer so far. \<open>network\<close> is what \<open>self._connection.send\<close> does
  with a message: it delivers it, raises \<open>ConnectionClosed\<close>, or raises another
  exception (as \<open>json.dumps\<close> may, too).
\<close>

datatype network = Delivers | ConnectionClosed | OtherException

record wsserver =
  connection :: "nat option"
  delivered :: "pyval list"

definition send_msg :: "network \<Rightarrow> pyval \<Rightarrow> wsserver \<Rightarrow> bool \<times> wsserver" where
  "send_msg net msg s =
     (if connection s = None then (False, s)
      else (case net of
              Delivers \<Rightarrow> (True, s\<lparr>delivered := delivered s @ [msg]\<rparr>)
            | ConnectionClosed \<Rightarrow> (False, s\<lparr>connection := None\<rparr>)
            | OtherException \<Rightarrow> (False, s)))"

definition send_action ::
  "network \<Rightarrow> pystr \<Rightarrow> dict option \<Rightarrow> wsserver \<Rightarrow> bool \<times> wsserver" where
  "send_action net act ps s =
     (if connection s = None then (False, s)
      else send_msg net
             (VDict [(py ''type'', VStr (py ''action'')), (py ''action'', VStr act),
                     (py ''params'', VDict (case ps of None \<Rightarrow> [] | Some d \<Rightarrow> d))]) s)"

definition send_chat :: "network \<Rightarrow> pystr \<Rightarrow> wsserver \<Rightarrow> bool \<times> wsserver" where
  "send_chat net message s =
     (let truncated = take 250 message
      in send_action net (py ''send_chat'') (Some [(py ''message'', VStr truncated)]) s)"

section \<open>Auxiliary definitions for the statements\<close>

text \<open>The last \<open>n\<close> elements of a list, in their order.\<close>

definition last_n :: "nat \<Rightarrow> 'a list \<Rightarrow> 'a list" where
  "last_n n xs = drop (length xs - n) xs"

text \<open>
  The text of a tag with given groups, and the text a scan stands for: every piece of a scan
  is a character passed over or a tag.
\<close>

fun tag_text :: "groups \<Rightarrow> pystr" where
  "tag_text (w, None) = py ''[ACTION:'' @ w @ [93]"
| "tag_text (w, Some p) = py ''[ACTION:'' @ w @ [58] @ p @ [93]"

fun piece_text :: "nat + groups \<Rightarrow> pystr" where
  "piece_text (Inl c) = [c]"
| "piece_text (Inr g) = tag_text g"

definition text_of :: "(nat + groups) list \<Rightarrow> pystr" where
  "text_of ps = concat (map piece_text ps)"

text \<open>
  A well-formed tag: a name of one or more word characters and, if present, a parameter
  without \<open>]\<close>. A text built from well-formed tags and from characters other than \<open>[\<close>
  is one in which every \<open>[\<close> belongs to a tag.
\<close>

definition valid_tag :: "builtins \<Rightarrow> groups \<Rightarrow> bool" where
  "valid_tag B g =
     (fst g \<noteq> [] \<and> list_all (is_word B) (fst g)
      \<and> (case snd g of None \<Rightarrow> True | Some p \<Rightarrow> 93 \<notin> set p))"

fun bracket_free_piece :: "builtins \<Rightarrow> nat + groups \<Rightarrow> bool" where
  "bracket_free_piece B (Inl c) = (c \<noteq> 91)"
| "bracket_free_piece B (Inr g) = valid_tag B g"

text \<open>The action of a tag, when the loop body appends one.\<close>

definition appended :: "builtins \<Rightarrow> groups \<Rightarrow> action option" where
  "appended B g = (case action_of B g of Inl e \<Rightarrow> None | Inr a \<Rightarrow> a)"

text \<open>
  The orchestrator (main.py, \<open>handle_response\<close>) collapses whitespace itself:
  \<open>" ".join(text.split())\<close>, every run of whitespace becoming one space and the ends
  being trimmed.
\<close>

fun split_whitespace :: "pystr \<Rightarrow> pystr \<Rightarrow> pystr list" where
  "split_whitespace cur [] = (if cur = [] then [] else [cur])"
| "split_whitespace cur (c # cs) =
     (if isspace c
      then (if cur = [] then split_whitespace [] cs else cur # split_whitespace [] cs)
      else split_whitespace (cur @ [c]) cs)"

definition collapse_whitespace :: "pystr \<Rightarrow> pystr" where
  "collapse_whitespace text = join [32] (split_whitespace [] text)"

text \<open>Settings used to evaluate examples: one listed cooldown, a queue of two.\<close>

definition example_settings :: settings where
  "example_settings =
     \<lparr>cooldowns = [py ''mob_spawn'' \<mapsto> 10], max_queue_depth = 2, history_length = 10\<rparr>"

section \<open>Properties of the command extractor\<close>

text \<open>Evaluation of the definitions on literals.\<close>

lemma py_simps: "py [] = []" "py (c # cs) = of_char c # py cs"
  by (simp_all add: py_def)

lemmas extractor_eval =
  py_simps match_at_def is_word_def extract_actions_def finditer_def sub_empty_def
  action_of_def Let_def strip_def isspace_def

lemmas ascii_eval =
  ascii_builtins_def ascii_float_def float_strip_def float_space_def sign_of_def lower_def floatnumber_def isdigit_def
  exponent_def decimal_def scale10_def ascii_format_def

lemma strip_prefix_Some: "strip_prefix p s = Some r \<Longrightarrow> s = p @ r"
  by (induction p s rule: strip_prefix.induct) (auto split: if_splits)

lemma strip_prefix_append: "strip_prefix p (p @ r) = Some r"
  by (induction p) auto

text \<open>
  C1. The extractor does not return normally on every text: \<open>float\<close> raises
  \<open>ValueError\<close> on a field that is not a number, and nothing catches it. A \<open>look_at\<close> tag
  with three comma-separated fields that are not numeric is neither stripped nor skipped:
  the call raises.
\<close>

theorem extract_actions_look_at_raises:
  "extract_actions ascii_builtins (py ''[ACTION:look_at:a,b,c]'') = Inl ValueError"
  by (simp add: extractor_eval ascii_eval)

subsection \<open>The matcher and the pattern\<close>

text \<open>
  The matcher agrees with the pattern read as a grammar: there is a match at the start of
  \<open>s\<close> with groups \<open>g\<close> and rest \<open>r\<close> exactly when \<open>s\<close> is the text of a tag with these
  groups followed by \<open>r\<close>, the name being a non-empty run of word characters and the
  parameter holding no \<open>]\<close>. The decomposition is unique, so the order in which the
  engine backtracks is immaterial.
\<close>

lemma not_word_delims: "\<not> is_word B 93" "\<not> is_word B 58"
  by (simp_all add: is_word_def)

lemma dropWhile_neq_Cons:
  assumes "dropWhile (\<lambda>c. c \<noteq> a) xs = d # ys"
  shows "d = a \<and> xs = takeWhile (\<lambda>c. c \<noteq> a) xs @ a # ys"
proof -
  have "\<not> (hd (dropWhile (\<lambda>c. c \<noteq> a) xs) \<noteq> a)"
    using assms hd_dropWhile [of "\<lambda>c. c \<noteq> a" xs] by fastforce
  with assms have "d = a" by simp
  moreover have "xs = takeWhile (\<lambda>c. c \<noteq> a) xs @ dropWhile (\<lambda>c. c \<noteq> a) xs"
    by simp
  ultimately show ?thesis using assms by simp
qed

lemma match_at_SomeD:
  assumes "match_at B s = Some (g, r)"
  shows "s = tag_text g @ r \<and> fst g \<noteq> [] \<and> (\<forall>c\<in>set (fst g). is_word B c)
         \<and> (\<forall>p. snd g = Some p \<longrightarrow> 93 \<notin> set p)"
proof -
  from assms obtain r0 where r0: "strip_prefix (py ''[ACTION:'') s = Some r0"
    by (auto simp: match_at_def split: option.splits)
  then have s: "s = py ''[ACTION:'' @ r0" by (rule strip_prefix_Some)
  let ?w = "takeWhile (is_word B) r0" and ?r1 = "dropWhile (is_word B) r0"
  have split: "r0 = ?w @ ?r1" by simp
  have word: "\<forall>c\<in>set ?w. is_word B c" by (auto dest: set_takeWhileD)
  from assms r0 have w: "?w \<noteq> []"
    by (auto simp: match_at_def Let_def split: if_splits)
  from assms r0 w obtain c r2 where r1: "?r1 = c # r2"
    by (cases ?r1) (auto simp: match_at_def Let_def)
  show ?thesis
  proof (cases "c = 93")
    case True
    with assms r0 w r1 have "g = (?w, None)" "r = r2"
      by (auto simp: match_at_def Let_def)
    with s split r1 True w word show ?thesis
      by simp
  next
    case False
    with assms r0 w r1 have c: "c = 58"
      by (auto simp: match_at_def Let_def split: if_splits)
    let ?p = "takeWhile (\<lambda>c. c \<noteq> 93) r2" and ?r3 = "dropWhile (\<lambda>c. c \<noteq> (93::nat)) r2"
    from assms r0 w r1 c obtain d r4 where r3: "?r3 = d # r4"
      by (cases ?r3) (auto simp: match_at_def Let_def)
    with assms r0 w r1 c have g: "g = (?w, Some ?p)" "r = r4"
      by (auto simp: match_at_def Let_def)
    have r2: "r2 = ?p @ 93 # r4"
      using dropWhile_neq_Cons [OF r3] by simp
    have p: "93 \<notin> set ?p" by (auto dest: set_takeWhileD)
    have "r0 = ?w @ [58] @ ?p @ [93] @ r4"
      using split r1 c r2 by (metis append_Cons append_Nil)
    with s have "s = py ''[ACTION:'' @ ?w @ [58] @ ?p @ [93] @ r4"
      by simp
    with g w word p show ?thesis by simp
  qed
qed

lemma takeWhile_until:
  "a \<notin> set p \<Longrightarrow> takeWhile (\<lambda>c. c \<noteq> a) (p @ a # r) = p"
  "a \<notin> set p \<Longrightarrow> dropWhile (\<lambda>c. c \<noteq> a) (p @ a # r) = a # r"
  by (induction p) auto

lemma takeWhile_word_run:
  assumes "\<forall>c\<in>set w. is_word B c" "\<not> is_word B d"
  shows "takeWhile (is_word B) (w @ d # r) = w" "dropWhile (is_word B) (w @ d # r) = d # r"
  using assms by (simp_all add: takeWhile_append2 dropWhile_append2)

lemma match_at_tag:
  assumes "fst g \<noteq> []" "\<forall>c\<in>set (fst g). is_word B c" "\<forall>p. snd g = Some p \<longrightarrow> 93 \<notin> set p"
  shows "match_at B (tag_text g @ r) = Some (g, r)"
proof (cases g)
  case (Pair w po)
  show ?thesis
  proof (cases po)
    case None
    with Pair assms show ?thesis
      by (simp add: match_at_def strip_prefix_append takeWhile_word_run not_word_delims)
  next
    case (Some p)
    with Pair assms have "takeWhile (\<lambda>c. c \<noteq> 93) (p @ 93 # r) = p"
      "dropWhile (\<lambda>c. c \<noteq> 93) (p @ 93 # r) = 93 # r"
      by (simp_all add: takeWhile_until)
    with Some Pair assms show ?thesis
      by (simp add: match_at_def strip_prefix_append takeWhile_word_run not_word_delims)
  qed
qed

lemma match_at_iff:
  "match_at B s = Some (g, r) \<longleftrightarrow>
     s = tag_text g @ r \<and> fst g \<noteq> [] \<and> (\<forall>c\<in>set (fst g). is_word B c)
     \<and> (\<forall>p. snd g = Some p \<longrightarrow> 93 \<notin> set p)"
  using match_at_SomeD [of B s g r] match_at_tag [of g B r] by blast

lemma match_at_extend:
  "match_at B s = Some (g, r) \<Longrightarrow> match_at B (s @ t) = Some (g, r @ t)"
  using match_at_SomeD [of B s g r] match_at_tag [of g B "r @ t"] by simp

text \<open>A scan loses nothing: its pieces, in order, spell the text.\<close>

lemma scan_text_of: "text_of (scan B s) = s"
proof (induction B s rule: scan.induct)
  case (1 B)
  show ?case by (simp add: text_of_def)
next
  case (2 B c cs)
  show ?case
  proof (cases "match_at B (c # cs)")
    case None
    with 2 show ?thesis by (simp add: text_of_def)
  next
    case (Some mr)
    then have "tag_text (fst mr) @ snd mr = c # cs"
      using match_at_SomeD [of B "c # cs" "fst mr" "snd mr"] by simp
    moreover have "text_of (scan B (c # cs)) = tag_text (fst mr) @ text_of (scan B (snd mr))"
      using Some by (simp add: text_of_def)
    moreover have "text_of (scan B (snd mr)) = snd mr"
      using 2(2) Some by simp
    ultimately show ?thesis by simp
  qed
qed

subsection \<open>Texts without a tag\<close>

lemma finditer_simps:
  "finditer B [] = []"
  "match_at B (c # cs) = None \<Longrightarrow> finditer B (c # cs) = finditer B cs"
  "match_at B (c # cs) = Some mr \<Longrightarrow> finditer B (c # cs) = fst mr # finditer B (snd mr)"
  by (simp_all add: finditer_def)

lemma sub_empty_simps:
  "sub_empty B [] = []"
  "match_at B (c # cs) = None \<Longrightarrow> sub_empty B (c # cs) = c # sub_empty B cs"
  "match_at B (c # cs) = Some mr \<Longrightarrow> sub_empty B (c # cs) = sub_empty B (snd mr)"
  by (simp_all add: sub_empty_def)

lemma match_at_Nil: "match_at B [] = None"
  by (simp add: match_at_def py_simps)

lemma finditer_empty_iff:
  "finditer B s = [] \<longleftrightarrow> (\<forall>t. suffix t s \<longrightarrow> match_at B t = None)"
proof (induction s)
  case Nil
  show ?case by (simp add: finditer_simps match_at_Nil)
next
  case (Cons c cs)
  show ?case
  proof (cases "match_at B (c # cs)")
    case None
    with Cons show ?thesis
      by (auto simp: finditer_simps suffix_Cons)
  next
    case (Some mr)
    have "suffix (c # cs) (c # cs)" by simp
    with Some have "\<not> (\<forall>t. suffix t (c # cs) \<longrightarrow> match_at B t = None)"
      by (metis option.distinct(1))
    with Some show ?thesis
      by (simp add: finditer_simps)
  qed
qed

lemma sub_empty_no_match: "finditer B s = [] \<Longrightarrow> sub_empty B s = s"
proof (induction s)
  case Nil
  show ?case by (simp add: sub_empty_simps)
next
  case (Cons c cs)
  show ?case
  proof (cases "match_at B (c # cs)")
    case None
    with Cons show ?thesis
      by (simp add: finditer_simps sub_empty_simps)
  next
    case (Some mr)
    with Cons.prems show ?thesis
      by (simp add: finditer_simps)
  qed
qed

lemma finditer_empty_suffix: "finditer B (p @ q) = [] \<Longrightarrow> finditer B q = []"
  by (auto simp: finditer_empty_iff suffix_append)

lemma finditer_empty_prefix:
  assumes "finditer B (p @ q) = []"
  shows "finditer B p = []"
proof (rule ccontr)
  assume "finditer B p \<noteq> []"
  then obtain t mr where t: "suffix t p" "match_at B t = Some mr"
    by (auto simp: finditer_empty_iff)
  then have "match_at B (t @ q) = Some (fst mr, snd mr @ q)"
    using match_at_extend [of B t "fst mr" "snd mr" q] by simp
  moreover from t(1) have "suffix (t @ q) (p @ q)"
    by (auto simp: suffix_def)
  ultimately show False
    using assms by (auto simp: finditer_empty_iff)
qed

subsection \<open>Stripping\<close>

lemma strip_decompose: "\<exists>a b. s = a @ strip s @ b"
proof -
  let ?t = "dropWhile isspace s"
  have "s = takeWhile isspace s @ ?t" by simp
  moreover have "rev ?t = takeWhile isspace (rev ?t) @ dropWhile isspace (rev ?t)" by simp
  then have "?t = rev (dropWhile isspace (rev ?t)) @ rev (takeWhile isspace (rev ?t))"
    by (metis rev_append rev_rev_ident)
  ultimately have "s = takeWhile isspace s @ strip s @ rev (takeWhile isspace (rev ?t))"
    by (simp add: strip_def)
  then show ?thesis by blast
qed

lemma finditer_empty_strip: "finditer B s = [] \<Longrightarrow> finditer B (strip s) = []"
proof -
  assume a: "finditer B s = []"
  obtain x y where "s = x @ strip s @ y" using strip_decompose by blast
  with a have "finditer B (x @ (strip s @ y)) = []" by simp
  then have "finditer B (strip s @ y) = []" by (rule finditer_empty_suffix)
  then show ?thesis by (rule finditer_empty_prefix)
qed

lemma dropWhile_idem: "dropWhile P (dropWhile P xs) = dropWhile P xs"
  by (induction xs) auto

lemma dropWhile_rev_not_head:
  "xs \<noteq> [] \<Longrightarrow> \<not> P (hd xs) \<Longrightarrow> rev (dropWhile P (rev xs)) \<noteq> [] \<and> hd (rev (dropWhile P (rev xs))) = hd xs"
proof (induction xs rule: rev_induct)
  case Nil
  then show ?case by simp
next
  case (snoc x xs)
  show ?case
  proof (cases "xs = []")
    case True
    with snoc.prems show ?thesis by simp
  next
    case False
    with snoc show ?thesis by (auto simp: hd_append)
  qed
qed

lemma strip_idem: "strip (strip s) = strip s"
proof -
  let ?t = "dropWhile isspace s"
  let ?u = "rev (dropWhile isspace (rev ?t))"
  have "dropWhile isspace ?u = ?u"
  proof (cases "?u = []")
    case True
    show ?thesis unfolding True by simp
  next
    case False
    have "t = [] \<Longrightarrow> rev (dropWhile isspace (rev t)) = []" for t :: pystr
      by simp
    from this [of ?t] False have t: "?t \<noteq> []" by blast
    then have "\<not> isspace (hd ?t)" using hd_dropWhile by blast
    with t have "hd ?u = hd ?t" using dropWhile_rev_not_head by blast
    with \<open>\<not> isspace (hd ?t)\<close> False show ?thesis
      by (cases ?u) auto
  qed
  then show ?thesis
    by (simp add: strip_def dropWhile_idem)
qed

subsection \<open>The loop\<close>

lemma action_of_error: "action_of B g = Inl e \<Longrightarrow> e = ValueError"
  by (auto simp: action_of_def Let_def split: if_splits option.splits)

lemma collect_ok:
  "\<forall>g\<in>set gs. \<not> isl (action_of B g) \<Longrightarrow>
   collect B gs acc = Inr (acc @ List.map_filter (appended B) gs)"
proof (induction gs arbitrary: acc)
  case Nil
  show ?case by simp
next
  case (Cons g gs)
  then obtain a where a: "action_of B g = Inr a"
    by (cases "action_of B g") auto
  with Cons show ?case
    by (cases a) (auto simp: appended_def)
qed

lemma collect_raises:
  "\<exists>g\<in>set gs. isl (action_of B g) \<Longrightarrow> collect B gs acc = Inl ValueError"
proof (induction gs arbitrary: acc)
  case Nil
  then show ?case by simp
next
  case (Cons g gs)
  show ?case
  proof (cases "action_of B g")
    case (Inl e)
    then show ?thesis using action_of_error by auto
  next
    case (Inr a)
    with Cons show ?thesis by (cases a) auto
  qed
qed

text \<open>
  The only exception of the loop body is the \<open>ValueError\<close> of \<open>float\<close>, on a \<open>look_at\<close> tag
  with exactly three fields of which one is not a number; the extractor raises exactly
  when the text holds such a tag.
\<close>

lemma action_of_raises_iff:
  "isl (action_of B g) \<longleftrightarrow>
     fst g = py ''look_at''
     \<and> (let parts = split_on 44 (case snd g of None \<Rightarrow> [] | Some p \<Rightarrow> p)
        in length parts = 3
           \<and> (py_float B (parts ! 0) = None \<or> py_float B (parts ! 1) = None
              \<or> py_float B (parts ! 2) = None))"
proof -
  have names: "py ''look_at'' \<noteq> py ''send_chat''" "py ''look_at'' \<noteq> py ''follow_player''"
    "py ''look_at'' \<noteq> py ''stop_follow''"
    by (simp_all add: py_simps)
  show ?thesis
  proof (cases "fst g = py ''look_at''")
    case False
    then show ?thesis
      by (simp add: action_of_def Let_def)
  next
    case True
    then show ?thesis
      by (simp add: action_of_def Let_def names split: option.splits)
  qed
qed

lemma extract_actions_raises_iff:
  "isl (extract_actions B text) \<longleftrightarrow> (\<exists>g\<in>set (finditer B text). isl (action_of B g))"
proof (cases "\<exists>g\<in>set (finditer B text). isl (action_of B g)")
  case True
  then show ?thesis
    by (simp add: extract_actions_def collect_raises)
next
  case False
  then have "collect B (finditer B text) [] = Inr ([] @ List.map_filter (appended B) (finditer B text))"
    by (intro collect_ok) simp
  with False show ?thesis
    by (simp add: extract_actions_def)
qed

subsection \<open>The claims on the extractor\<close>

text \<open>
  C2 (as amended). For every input text that holds no \<open>look_at\<close> tag on which \<open>float\<close>
  raises, the extractor returns a pair \<open>(clean_text, actions)\<close>: the text is the sequence
  of the pieces of the scan (characters and tags, from left to right), \<open>clean_text\<close> is
  the characters outside the tags with the leading and trailing whitespace stripped and
  nothing else changed (the whitespace inside, also around a removed tag, stays), and
  \<open>actions\<close> lists the actions of the recognized tags in the order of the tags. For a
  text without a tag it returns the stripped text and no action.
\<close>

theorem extract_actions_result:
  assumes "\<forall>g\<in>set (finditer B text). \<not> isl (action_of B g)"
  shows "extract_actions B text
           = Inr (strip (sub_empty B text), List.map_filter (appended B) (finditer B text))
         \<and> text_of (scan B text) = text
         \<and> (finditer B text = [] \<longrightarrow> extract_actions B text = Inr (strip text, []))"
proof -
  have "collect B (finditer B text) [] = Inr ([] @ List.map_filter (appended B) (finditer B text))"
    using assms by (rule collect_ok)
  then have "extract_actions B text
           = Inr (strip (sub_empty B text), List.map_filter (appended B) (finditer B text))"
    by (simp add: extract_actions_def)
  then show ?thesis
    by (simp add: scan_text_of sub_empty_no_match)
qed

text \<open>
  C2, witness: a text with a \<open>look_at\<close> tag of three numbers, a tag without parameter, an
  unknown tag and a \<open>look_at\<close> tag of two fields.
\<close>

theorem extract_actions_result_witness:
  "extract_actions ascii_builtins
     (py ''  hi [ACTION:look_at:1,2.5,-3e2] there [ACTION:eat] [ACTION:foo:bar][ACTION:look_at:1,2] '')
   = Inr (py ''hi  there'',
         [\<lparr>action = py ''look_at'',
            params = [(py ''x'', VFloat (Fin 1)), (py ''y'', VFloat (Fin (5 / 2))),
                      (py ''z'', VFloat (Fin (- 300)))]\<rparr>,
          \<lparr>action = py ''eat'', params = []\<rparr>])"
proof -
  let ?t = "py ''  hi [ACTION:look_at:1,2.5,-3e2] there [ACTION:eat] [ACTION:foo:bar][ACTION:look_at:1,2] ''"
  have h: "\<forall>g\<in>set (finditer ascii_builtins ?t). \<not> isl (action_of ascii_builtins g)"
    by (simp add: extractor_eval ascii_eval)
  from extract_actions_result [OF h]
  have "extract_actions ascii_builtins ?t
          = Inr (strip (sub_empty ascii_builtins ?t),
                 List.map_filter (appended ascii_builtins) (finditer ascii_builtins ?t))"
    by (rule conjunct1)
  also have "\<dots> = Inr (py ''hi  there'',
         [\<lparr>action = py ''look_at'',
            params = [(py ''x'', VFloat (Fin 1)), (py ''y'', VFloat (Fin (5 / 2))),
                      (py ''z'', VFloat (Fin (- 300)))]\<rparr>,
          \<lparr>action = py ''eat'', params = []\<rparr>])"
    by (simp add: extractor_eval ascii_eval appended_def)
  finally show ?thesis .
qed

text \<open>
  C2, counterexample to the claim as stated: the whitespace around a removed tag is not
  collapsed. Both spaces that surrounded the tag are in the clean text, which is not what
  collapsing whitespace gives.
\<close>

theorem extract_actions_inner_whitespace_counterexample:
  "extract_actions ascii_builtins (py ''a [ACTION:eat] b'')
     = Inr (py ''a  b'', [\<lparr>action = py ''eat'', params = []\<rparr>])
   \<and> collapse_whitespace (py ''a  b'') = py ''a b''
   \<and> py ''a  b'' \<noteq> py ''a b''"
  by (simp add: extractor_eval collapse_whitespace_def)

text \<open>
  On a text built from well-formed tags and characters other than \<open>[\<close> the scan finds
  exactly these tags; conversely every tag a scan finds is well formed. A text without
  \<open>[\<close> holds no tag.
\<close>

lemma match_at_not_bracket: "c \<noteq> 91 \<Longrightarrow> match_at B (c # cs) = None"
  by (auto simp: match_at_def py_simps)

lemma scan_match: "match_at B s = Some (g, r) \<Longrightarrow> scan B s = Inr g # scan B r"
  by (cases s) (simp_all add: match_at_Nil)

lemma scan_built: "list_all (bracket_free_piece B) ps \<Longrightarrow> scan B (text_of ps) = ps"
proof (induction ps)
  case Nil
  show ?case by (simp add: text_of_def)
next
  case (Cons p ps)
  then have ih: "scan B (text_of ps) = ps" by simp
  show ?case
  proof (cases p)
    case (Inl c)
    with Cons.prems have "match_at B (c # text_of ps) = None"
      by (simp add: match_at_not_bracket)
    with Inl ih show ?thesis
      by (simp add: text_of_def)
  next
    case (Inr g)
    with Cons.prems have "match_at B (tag_text g @ text_of ps) = Some (g, text_of ps)"
      by (intro match_at_tag) (auto simp: valid_tag_def list_all_iff)
    then have "scan B (tag_text g @ text_of ps) = Inr g # scan B (text_of ps)"
      by (rule scan_match)
    with Inr ih show ?thesis
      by (simp add: text_of_def)
  qed
qed

lemma scan_pieces_valid: "Inr g \<in> set (scan B s) \<Longrightarrow> valid_tag B g"
proof (induction B s rule: scan.induct)
  case (1 B)
  then show ?case by simp
next
  case (2 B c cs)
  show ?case
  proof (cases "match_at B (c # cs)")
    case None
    with 2 show ?thesis by simp
  next
    case (Some mr)
    then have "valid_tag B (fst mr)"
      using match_at_SomeD [of B "c # cs" "fst mr" "snd mr"]
      by (auto simp: valid_tag_def list_all_iff split: option.splits)
    with 2 Some show ?thesis by auto
  qed
qed

lemma no_bracket_no_tag: "91 \<notin> set s \<Longrightarrow> finditer B s = []"
proof -
  assume a: "91 \<notin> set s"
  have "match_at B t = None" if "suffix t s" for t
  proof (cases t)
    case Nil
    then show ?thesis by (simp add: match_at_Nil)
  next
    case (Cons c cs)
    with that have "c \<in> set s" by (auto simp: suffix_def)
    with a have "c \<noteq> 91" by auto
    with Cons show ?thesis by (simp add: match_at_not_bracket)
  qed
  then show ?thesis by (simp add: finditer_empty_iff)
qed

lemma set_strip: "set (strip s) \<subseteq> set s"
proof -
  have "set (strip s) \<subseteq> set (dropWhile isspace s)"
    unfolding strip_def using set_dropWhileD by fastforce
  also have "\<dots> \<subseteq> set s" using set_dropWhileD by fastforce
  finally show ?thesis .
qed

text \<open>
  C10 (as amended). For every input text in which every \<open>[\<close> belongs to an action tag
  (the text is a sequence of well-formed tags and of characters other than \<open>[\<close>) and
  on which \<open>float\<close> does not raise, the extractor finds exactly these tags, and the
  clean text it returns holds no tag: running the extractor on its own clean text returns
  that same text and an empty action list. The same holds for every input text that holds
  no tag, whose clean text is the stripped input.
\<close>

theorem extract_actions_idempotent:
  "(list_all (bracket_free_piece B) ps \<and> (\<forall>g\<in>set [g. Inr g \<leftarrow> ps]. \<not> isl (action_of B g)) \<longrightarrow>
      scan B (text_of ps) = ps
      \<and> extract_actions B (text_of ps)
          = Inr (strip [c. Inl c \<leftarrow> ps], List.map_filter (appended B) [g. Inr g \<leftarrow> ps])
      \<and> finditer B (strip [c. Inl c \<leftarrow> ps]) = []
      \<and> extract_actions B (strip [c. Inl c \<leftarrow> ps]) = Inr (strip [c. Inl c \<leftarrow> ps], []))
   \<and> (finditer B text = []
      \<longrightarrow> extract_actions B text = Inr (strip text, [])
        \<and> extract_actions B (strip text) = Inr (strip text, []))"
proof (intro conjI impI)
  assume a: "list_all (bracket_free_piece B) ps \<and> (\<forall>g\<in>set [g. Inr g \<leftarrow> ps]. \<not> isl (action_of B g))"
  let ?clean = "strip [c. Inl c \<leftarrow> ps]"
  from a show sc: "scan B (text_of ps) = ps" by (simp add: scan_built)
  from a sc have "collect B (finditer B (text_of ps)) []
      = Inr ([] @ List.map_filter (appended B) (finditer B (text_of ps)))"
    by (intro collect_ok) (simp add: finditer_def)
  with sc show "extract_actions B (text_of ps)
          = Inr (?clean, List.map_filter (appended B) [g. Inr g \<leftarrow> ps])"
    by (simp add: extract_actions_def finditer_def sub_empty_def)
  from a have "91 \<notin> set [c. Inl c \<leftarrow> ps]"
    by (auto simp: list_all_iff)
  with set_strip [of "[c. Inl c \<leftarrow> ps]"] have "91 \<notin> set ?clean" by blast
  then show nt: "finditer B ?clean = []" by (rule no_bracket_no_tag)
  then show "extract_actions B ?clean = Inr (?clean, [])"
    by (simp add: extract_actions_def sub_empty_no_match strip_idem)
next
  assume a: "finditer B text = []"
  then show "extract_actions B text = Inr (strip text, [])"
    by (simp add: extract_actions_def sub_empty_no_match)
  from a have "finditer B (strip text) = []" by (rule finditer_empty_strip)
  then show "extract_actions B (strip text) = Inr (strip text, [])"
    by (simp add: extract_actions_def sub_empty_no_match strip_idem)
qed

text \<open>
  C10, witness: a text with two tags, one with a \<open>[\<close> in its parameter, and a text with a
  \<open>[\<close> but no tag.
\<close>

theorem extract_actions_idempotent_witness:
  "extract_actions ascii_builtins (py ''  hi [ACTION:eat] there [ACTION:send_chat:yo [x]! '')
     = Inr (py ''hi  there !'',
         [\<lparr>action = py ''eat'', params = []\<rparr>,
          \<lparr>action = py ''send_chat'', params = [(py ''message'', VStr (py ''yo [x''))]\<rparr>])
   \<and> extract_actions ascii_builtins (py ''hi  there !'') = Inr (py ''hi  there !'', [])
   \<and> extract_actions ascii_builtins (py '' see [1] '') = Inr (py ''see [1]'', [])
   \<and> extract_actions ascii_builtins (py ''see [1]'') = Inr (py ''see [1]'', [])"
proof -
  let ?ps = "map Inl (py ''  hi '') @ [Inr (py ''eat'', None)] @ map Inl (py '' there '')
    @ [Inr (py ''send_chat'', Some (py ''yo [x''))] @ map Inl (py ''! '')"
  have t: "text_of ?ps = py ''  hi [ACTION:eat] there [ACTION:send_chat:yo [x]! ''"
    by (simp add: text_of_def py_simps)
  have c: "strip [c. Inl c \<leftarrow> ?ps] = py ''hi  there !''"
    by (simp add: strip_def isspace_def py_simps)
  have g: "[g. Inr g \<leftarrow> ?ps] = [(py ''eat'', None), (py ''send_chat'', Some (py ''yo [x''))]"
    by (simp add: py_simps)
  have h1: "list_all (bracket_free_piece ascii_builtins) ?ps"
    by (simp add: valid_tag_def is_word_def py_simps)
  have h2: "\<forall>g\<in>set [g. Inr g \<leftarrow> ?ps]. \<not> isl (action_of ascii_builtins g)"
    unfolding g by (simp add: action_of_def py_simps)
  have a: "List.map_filter (appended ascii_builtins) [g. Inr g \<leftarrow> ?ps]
     = [\<lparr>action = py ''eat'', params = []\<rparr>,
        \<lparr>action = py ''send_chat'', params = [(py ''message'', VStr (py ''yo [x''))]\<rparr>]"
    unfolding g by (simp add: appended_def action_of_def py_simps)
  have n: "finditer ascii_builtins (py '' see [1] '') = []"
    by (simp add: extractor_eval)
  have s: "strip (py '' see [1] '') = py ''see [1]''"
    by (simp add: strip_def isspace_def py_simps)
  from extract_actions_idempotent [of ascii_builtins ?ps "py '' see [1] ''"] h1 h2 n
  show ?thesis
    unfolding t c a s by blast
qed

text \<open>
  C10, counterexample to the claim for every text: removing a tag joins the text before
  and after it, which can form a tag when a \<open>[\<close> outside a tag comes before it. The clean text of \<open>[ACTION[ACTION:eat]:eat]\<close> is
  \<open>[ACTION:eat]\<close>, and the extractor run on it returns the empty text and an action.
\<close>

theorem extract_actions_splices_tag_counterexample:
  "extract_actions ascii_builtins (py ''[ACTION[ACTION:eat]:eat]'')
     = Inr (py ''[ACTION:eat]'', [\<lparr>action = py ''eat'', params = []\<rparr>])
   \<and> extract_actions ascii_builtins (py ''[ACTION:eat]'')
     = Inr ([], [\<lparr>action = py ''eat'', params = []\<rparr>])"
  by (simp add: extractor_eval)

section \<open>Properties of the conversation history\<close>

lemma trim_nonneg: "0 \<le> m \<Longrightarrow> trim m ts = (None, last_n (nat (2 * m)) ts)"
proof (induction ts)
  case Nil
  then show ?case by (simp add: last_n_def)
next
  case (Cons t ts)
  show ?case
  proof (cases "int (length (t # ts)) > m * 2")
    case True
    then have "length (t # ts) - nat (2 * m) = Suc (length ts - nat (2 * m))"
      using Cons.prems by auto
    with True Cons show ?thesis by (simp add: last_n_def)
  next
    case False
    then have "length (t # ts) - nat (2 * m) = 0"
      using Cons.prems by auto
    with False show ?thesis by (simp add: last_n_def)
  qed
qed

lemma trim_negative: "m < 0 \<Longrightarrow> trim m ts = (Some IndexError, [])"
  by (induction ts) auto

lemma last_n_snoc: "last_n n (last_n n xs @ [x]) = last_n n (xs @ [x])"
proof (cases "n \<le> length xs")
  case True
  then have "Suc (length xs) - (length xs - n + n) + (length xs - n) = Suc (length xs) - n"
    by simp
  then show ?thesis by (simp add: last_n_def)
next
  case False
  then show ?thesis by (simp add: last_n_def)
qed

lemma last_n_length: "length (last_n n xs) \<le> n"
  by (auto simp: last_n_def)

lemma append_turn_nonneg:
  "0 \<le> hmax h \<Longrightarrow>
   append_turn t h = (None, h\<lparr>turns := last_n (nat (2 * hmax h)) (turns h @ [t])\<rparr>)"
  by (simp add: append_turn_def trim_nonneg)

lemma run_appends_nonneg:
  assumes "0 \<le> hmax h" "turns h = last_n (nat (2 * hmax h)) ts0"
  shows "turns (run_appends B ops h)
           = last_n (nat (2 * hmax h)) (ts0 @ List.map_filter (turn_of B) ops)
         \<and> hmax (run_appends B ops h) = hmax h"
  using assms
proof (induction ops arbitrary: h ts0)
  case Nil
  then show ?case by simp
next
  case (Cons a ops)
  show ?case
  proof (cases "turn_of B a")
    case None
    then have "snd (apply_append B a h) = h"
      by (cases a) (auto simp: add_user_def split: sum.splits)
    with Cons.IH [of h ts0] Cons.prems None show ?thesis
      by simp
  next
    case (Some t)
    let ?h = "h\<lparr>turns := last_n (nat (2 * hmax h)) (turns h @ [t])\<rparr>"
    from Some Cons.prems(1) have "snd (apply_append B a h) = ?h"
      by (cases a)
        (auto simp: add_user_def add_assistant_def append_turn_nonneg split: sum.splits)
    moreover have "last_n (nat (2 * hmax h)) (turns h @ [t])
                     = last_n (nat (2 * hmax h)) (ts0 @ [t])"
      using Cons.prems(2) by (simp add: last_n_snoc)
    ultimately show ?thesis
      using Cons.IH [of ?h "ts0 @ [t]"] Cons.prems Some
      by simp
  qed
qed

text \<open>
  C3. For every \<open>max_turns = N\<close>, a number of turns, and every sequence of appends to a
  new window, the window holds exactly the most recent \<open>2 * N\<close> of the turns appended,
  in their original order (the oldest are discarded first), so its length never exceeds
  \<open>2 * N\<close> after any append. In particular, after \<open>2 * N + 1\<close> alternating user and
  assistant turns it holds the most recent \<open>2 * N\<close>.
\<close>

theorem window_holds_most_recent:
  assumes "0 \<le> N"
  shows "turns (run_appends B ops (new_history N))
           = last_n (nat (2 * N)) (List.map_filter (turn_of B) ops)
         \<and> int (length (turns (run_appends B ops (new_history N)))) \<le> 2 * N"
proof -
  have "turns (run_appends B ops (new_history N))
          = last_n (nat (2 * N)) ([] @ List.map_filter (turn_of B) ops)"
    using run_appends_nonneg [of "new_history N" "[]" B ops] assms
    by (simp add: new_history_def last_n_def)
  moreover have "int (length (last_n (nat (2 * N)) (List.map_filter (turn_of B) ops))) \<le> 2 * N"
    using last_n_length [of "nat (2 * N)" "List.map_filter (turn_of B) ops"] assms
    by linarith
  ultimately show ?thesis by simp
qed

text \<open>
  C3, witness: \<open>N = 1\<close> and three alternating appends; the window holds the last two.
\<close>

theorem window_holds_most_recent_witness:
  "(0::int) \<le> 1
   \<and> turns (run_appends ascii_builtins
        [AddUser (py ''a'') None, AddAssistant (py ''b''), AddUser (py ''c'') None]
        (new_history 1))
     = [\<lparr>role = py ''assistant'', content = py ''b''\<rparr>, \<lparr>role = py ''user'', content = py ''c''\<rparr>]"
  using window_holds_most_recent [of 1 ascii_builtins
    "[AddUser (py ''a'') None, AddAssistant (py ''b''), AddUser (py ''c'') None]"]
  by (simp add: user_content_def last_n_def)

text \<open>
  A negative \<open>max_turns\<close> is no number of turns: an append then empties the list and
  raises \<open>IndexError\<close> from \<open>pop(0)\<close>.
\<close>

lemma append_with_negative_max_raises:
  "add_assistant (py ''hi'') (new_history (- 1)) = (Some IndexError, new_history (- 1))"
  by (simp add: add_assistant_def append_turn_def new_history_def)

text \<open>What \<open>add_user\<close> stores, by the shape of the snapshot.\<close>

lemma user_content_no_snapshot:
  "user_content B text None = Inr text" "user_content B text (Some []) = Inr text"
  by (simp_all add: user_content_def)

lemma user_content_block:
  "gs \<noteq> [] \<Longrightarrow> format_game_state B gs = Inr block \<Longrightarrow>
   user_content B text (Some gs) = Inr (block @ [10, 10] @ text)"
  by (simp add: user_content_def)

lemmas format_eval =
  format_game_state_def field_part_def list_part_def dict_get_def fmt_mob_def fmt_item_def
  fmt_effect_def roman_def roman_numeral_def

text \<open>
  C7. With a snapshot that is not empty but holds no recognized field, no block is
  rendered, yet \<open>add_user\<close> still puts the separator: the stored turn is two newlines
  followed by the text, not the raw text only.
\<close>

theorem add_user_separator_without_block:
  "format_game_state ascii_builtins [(py ''foo'', VInt 1)] = Inr []
   \<and> add_user ascii_builtins (py ''hi'') (Some [(py ''foo'', VInt 1)]) (new_history 10)
     = (None, \<lparr>hmax = 10, turns = [\<lparr>role = py ''user'', content = [10, 10] @ py ''hi''\<rparr>]\<rparr>)"
  by (simp add: add_user_def user_content_def format_eval py_simps append_turn_def
      new_history_def)

section \<open>Properties of the response engine\<close>

text \<open>
  C5. For every event type and data, \<open>handle_game_event\<close> called while the voice-active
  flag is true returns \<open>None\<close> and leaves the whole state unchanged: the cooldown table,
  the pending queue and the context window are as before.
\<close>

theorem handle_game_event_voice_active:
  "voice_active s \<Longrightarrow> handle_game_event B S api now event_type data s = (Inr None, s)"
  by (simp add: handle_game_event_def event_begin_def)

text \<open>C5, witness: a new engine with the flag set, an event at time 100.\<close>

theorem handle_game_event_voice_active_witness:
  "voice_active (set_voice_active True (new_brain example_settings []))
   \<and> handle_game_event ascii_builtins example_settings (\<lambda>messages. None) 100 (py ''dawn'') []
       (set_voice_active True (new_brain example_settings []))
     = (Inr None, set_voice_active True (new_brain example_settings []))"
  using handle_game_event_voice_active [of "set_voice_active True (new_brain example_settings [])"
    ascii_builtins example_settings "\<lambda>messages. None" 100 "py ''dawn''" "[]"]
  by (simp add: set_voice_active_def)

text \<open>The fixed utterance holds no tag and no surrounding whitespace.\<close>

lemma fallback_clean: "extract_actions B fallback = Inr (fallback, [])"
  by (simp add: fallback_def extractor_eval)

lemma add_user_hmax: "hmax (snd (add_user B text gs h)) = hmax h"
  by (simp add: add_user_def append_turn_def Let_def split: sum.splits)

lemma add_user_ok_nonneg:
  assumes "fst (add_user B text gs h) = None"
  shows "0 \<le> hmax h"
proof (rule ccontr)
  assume "\<not> 0 \<le> hmax h"
  then have "hmax h < 0" by simp
  with assms show False
    by (auto simp: add_user_def append_turn_def Let_def trim_negative split: sum.splits)
qed

lemma finish_fallback:
  assumes "0 \<le> hmax (history s)"
  shows "finish B fallback s =
    (Inr (fallback, []),
     s\<lparr>history := (history s)\<lparr>turns := last_n (nat (2 * hmax (history s)))
        (turns (history s) @ [\<lparr>role = py ''assistant'', content = fallback\<rparr>])\<rparr>\<rparr>)"
  using assms
  by (simp add: finish_def fallback_clean add_assistant_def append_turn_nonneg)

lemma think_begin_Inr:
  assumes "think_begin B user_input s = (Inr messages, s1)"
  shows "0 \<le> hmax (history s1)"
proof -
  let ?a = "add_user B user_input (Some (game_state s)) (history s)"
  from assms have "fst ?a = None" and "s1 = s\<lparr>history := snd ?a\<rparr>"
    by (auto simp: think_begin_def Let_def split: option.splits)
  then show ?thesis
    using add_user_ok_nonneg [of B user_input "Some (game_state s)" "history s"]
    by (simp add: add_user_hmax)
qed

lemma event_begin_Awaiting:
  assumes "event_begin B S now event_type data s = (Awaiting messages, s1)"
  shows "0 \<le> hmax (history s1)"
proof -
  let ?p = "build_event_prompt B event_type data"
  let ?a = "add_user B ?p (Some (game_state s)) (history s)"
  from assms have "fst ?a = None" and "history s1 = snd ?a"
    by (auto simp: event_begin_def Let_def split: option.splits if_splits)
  then show ?thesis
    using add_user_ok_nonneg [of B ?p "Some (game_state s)" "history s"]
    by (simp add: add_user_hmax)
qed

text \<open>
  C6. Whenever the external completion call fails, \<open>think\<close>, and \<open>handle_game_event\<close>
  past its admission checks, do not raise: they return the fixed utterance \<open>fallback\<close>
  as the reply text with an empty action list, and the window is the one that held the
  user turn with \<open>fallback\<close> appended as the assistant turn (and trimmed to its cap as after
  every append). The utterance is the short apology
  \<open>...bruh my brain just lagged, what were you saying?\<close>.
\<close>

theorem completion_failure_substitutes_fallback:
  "(think_begin B user_input s = (Inr messages1, s1) \<and> api messages1 = None \<longrightarrow>
      think B api user_input s =
        (Inr (fallback, []),
         s1\<lparr>history := (history s1)\<lparr>turns := last_n (nat (2 * hmax (history s1)))
            (turns (history s1) @ [\<lparr>role = py ''assistant'', content = fallback\<rparr>])\<rparr>\<rparr>))
   \<and> (event_begin B S now event_type data s = (Awaiting messages2, s2) \<and> api messages2 = None \<longrightarrow>
      handle_game_event B S api now event_type data s =
        (Inr (Some (fallback, [])),
         s2\<lparr>history := (history s2)\<lparr>turns := last_n (nat (2 * hmax (history s2)))
            (turns (history s2) @ [\<lparr>role = py ''assistant'', content = fallback\<rparr>])\<rparr>,
            proactive_lock := False\<rparr>))
   \<and> fallback = py ''...bruh my brain just lagged, what were you saying?''"
proof (intro conjI impI)
  show "fallback = py ''...bruh my brain just lagged, what were you saying?''"
    by (rule fallback_def)
next
  assume a: "think_begin B user_input s = (Inr messages1, s1) \<and> api messages1 = None"
  then have "0 \<le> hmax (history s1)" using think_begin_Inr by blast
  with a show "think B api user_input s =
        (Inr (fallback, []),
         s1\<lparr>history := (history s1)\<lparr>turns := last_n (nat (2 * hmax (history s1)))
            (turns (history s1) @ [\<lparr>role = py ''assistant'', content = fallback\<rparr>])\<rparr>\<rparr>)"
    by (simp add: think_def think_end_def call_claude_def finish_fallback)
next
  assume a: "event_begin B S now event_type data s = (Awaiting messages2, s2) \<and> api messages2 = None"
  then have "0 \<le> hmax (history s2)" using event_begin_Awaiting by blast
  with a show "handle_game_event B S api now event_type data s =
        (Inr (Some (fallback, [])),
         s2\<lparr>history := (history s2)\<lparr>turns := last_n (nat (2 * hmax (history s2)))
            (turns (history s2) @ [\<lparr>role = py ''assistant'', content = fallback\<rparr>])\<rparr>,
            proactive_lock := False\<rparr>)"
    by (simp add: handle_game_event_def event_end_def call_claude_def finish_fallback)
qed

lemmas brain_eval =
  new_brain_def new_history_def example_settings_def think_begin_def event_begin_def
  add_user_def user_content_def append_turn_def get_messages_def last_of_def cooldown_of_def
  build_event_prompt_def dict_get_def Let_def

text \<open>
  C6, witness: a new engine whose completion call always fails, asked \<open>hi\<close> and given a
  \<open>night_fall\<close> event.
\<close>

theorem completion_failure_substitutes_fallback_witness:
  "think ascii_builtins (\<lambda>messages. None) (py ''hi'') (new_brain example_settings []) =
     (Inr (py ''...bruh my brain just lagged, what were you saying?'', []),
      (new_brain example_settings [])\<lparr>history := \<lparr>hmax = 10, turns =
         [\<lparr>role = py ''user'', content = py ''hi''\<rparr>,
          \<lparr>role = py ''assistant'', content = py ''...bruh my brain just lagged, what were you saying?''\<rparr>]\<rparr>\<rparr>)
   \<and> handle_game_event ascii_builtins example_settings (\<lambda>messages. None) 100 (py ''night_fall'') []
       (new_brain example_settings []) =
     (Inr (Some (py ''...bruh my brain just lagged, what were you saying?'', [])),
      (new_brain example_settings [])\<lparr>history := \<lparr>hmax = 10, turns =
         [\<lparr>role = py ''user'',
           content = py ''[EVENT] It just turned night. Mobs are going to start spawning.''\<rparr>,
          \<lparr>role = py ''assistant'', content = py ''...bruh my brain just lagged, what were you saying?''\<rparr>]\<rparr>,
        last_event_time := [py ''night_fall'' \<mapsto> 100]\<rparr>)"
  using completion_failure_substitutes_fallback [of ascii_builtins "py ''hi''"
    "new_brain example_settings []"
    "[\<lparr>role = py ''user'', content = py ''hi''\<rparr>]"
    "(new_brain example_settings [])\<lparr>history := \<lparr>hmax = 10, turns =
         [\<lparr>role = py ''user'', content = py ''hi''\<rparr>]\<rparr>\<rparr>"
    "\<lambda>messages. None" example_settings 100 "py ''night_fall''" "[]"
    "[\<lparr>role = py ''user'',
           content = py ''[EVENT] It just turned night. Mobs are going to start spawning.''\<rparr>]"
    "(new_brain example_settings [])\<lparr>history := \<lparr>hmax = 10, turns =
         [\<lparr>role = py ''user'',
           content = py ''[EVENT] It just turned night. Mobs are going to start spawning.''\<rparr>]\<rparr>,
        last_event_time := [py ''night_fall'' \<mapsto> 100], proactive_lock := True\<rparr>"]
  by (simp add: brain_eval py_simps last_n_def fallback_def)

lemma event_begin_stamps:
  "fst (event_begin B S now event_type data s) \<noteq> Suppressed \<Longrightarrow>
   last_event_time (snd (event_begin B S now event_type data s)) event_type = Some now"
  by (auto simp: event_begin_def Let_def split: if_splits option.splits)

text \<open>
  The stamp of an event type stays as long as every later call for that type comes before
  the cooldown has elapsed since the stamp: such a call is suppressed, and no other step
  writes the entry.
\<close>

lemma step_keeps_stamp:
  assumes "last_event_time s event_type = Some now1"
    and "\<forall>t d. x = EventBegin t event_type d \<longrightarrow> t - now1 < cooldown_of S event_type"
  shows "last_event_time (snd (step B S x s)) event_type = Some now1"
proof (cases x)
  case (UpdateGameState gs)
  with assms show ?thesis by (simp add: update_game_state_def)
next
  case (SetVoiceActive b)
  with assms show ?thesis by (simp add: set_voice_active_def)
next
  case (ThinkBegin u)
  with assms show ?thesis
    by (simp add: think_begin_def Let_def split: option.splits)
next
  case (ThinkEnd r)
  with assms show ?thesis
    by (simp add: think_end_def finish_def Let_def split: option.splits sum.splits)
next
  case (EventBegin t e d)
  show ?thesis
  proof (cases "e = event_type")
    case True
    with assms EventBegin have "t - last_of s e < cooldown_of S e"
      by (simp add: last_of_def)
    with assms EventBegin True show ?thesis
      by (simp add: event_begin_def)
  next
    case False
    with assms EventBegin show ?thesis
      by (simp add: event_begin_def Let_def split: option.splits)
  qed
next
  case (EventEnd r)
  with assms show ?thesis
    by (simp add: event_end_def finish_def Let_def split: option.splits sum.splits)
qed

lemma run_keeps_stamp:
  assumes "last_event_time s event_type = Some now1"
    and "\<forall>x\<in>set ops. \<forall>t d. x = EventBegin t event_type d \<longrightarrow> t - now1 < cooldown_of S event_type"
  shows "last_event_time (snd (run B S ops s)) event_type = Some now1"
  using assms
proof (induction ops arbitrary: s)
  case Nil
  then show ?case by simp
next
  case (Cons x xs)
  from Cons.prems have "last_event_time (snd (step B S x s)) event_type = Some now1"
    by (intro step_keeps_stamp) auto
  with Cons.IH [of "snd (step B S x s)"] Cons.prems(2) show ?case
    by (simp add: Let_def)
qed

text \<open>
  C4 (as amended). For every event type, if a \<open>handle_game_event\<close> call for it passes its
  admission checks at time \<open>now1\<close> (it is not suppressed, so it stamps the cooldown
  table), then, whatever steps the engine takes afterwards (the completion of that call,
  \<open>think\<close>, state updates, events of other types, and calls for the same type that
  also come before the cooldown has elapsed since \<open>now1\<close>), a call for the same type at a
  time \<open>now2\<close> before the configured cooldown (30 seconds for an unlisted type) has
  elapsed since \<open>now1\<close> is suppressed: it returns \<open>None\<close> and changes nothing, the stamp
  included.
\<close>

theorem cooldown_suppresses_second_call:
  assumes "fst (event_begin B S now1 event_type data1 s) \<noteq> Suppressed"
    and "\<forall>x\<in>set ops. \<forall>t d. x = EventBegin t event_type d \<longrightarrow> t - now1 < cooldown_of S event_type"
    and "now2 - now1 < cooldown_of S event_type"
  shows "handle_game_event B S api now2 event_type data2
           (snd (run B S ops (snd (event_begin B S now1 event_type data1 s))))
         = (Inr None, snd (run B S ops (snd (event_begin B S now1 event_type data1 s))))"
proof -
  let ?s1 = "snd (event_begin B S now1 event_type data1 s)"
  let ?s2 = "snd (run B S ops ?s1)"
  from assms(1) have "last_event_time ?s1 event_type = Some now1"
    by (rule event_begin_stamps)
  from this assms(2) have "last_event_time ?s2 event_type = Some now1"
    by (rule run_keeps_stamp)
  then have "last_of ?s2 event_type = now1"
    by (simp add: last_of_def)
  with assms(3) show ?thesis
    by (simp add: handle_game_event_def event_begin_def)
qed

text \<open>
  C4, witness: a \<open>dawn\<close> event admitted at time 1000 whose call then completes, a
  second one at time 1000.5, and a third at time 1001.
\<close>

theorem cooldown_suppresses_second_call_witness:
  "handle_game_event ascii_builtins example_settings (\<lambda>messages. Some (py ''ok'')) 1001 (py ''dawn'') []
     (snd (run ascii_builtins example_settings
        [EventEnd (Some (py ''ok'')), EventBegin 1000.5 (py ''dawn'') [], SetVoiceActive False]
        (snd (event_begin ascii_builtins example_settings 1000 (py ''dawn'') []
           (new_brain example_settings [])))))
   = (Inr None,
      snd (run ascii_builtins example_settings
        [EventEnd (Some (py ''ok'')), EventBegin 1000.5 (py ''dawn'') [], SetVoiceActive False]
        (snd (event_begin ascii_builtins example_settings 1000 (py ''dawn'') []
           (new_brain example_settings [])))))"
proof -
  have 1: "fst (event_begin ascii_builtins example_settings 1000 (py ''dawn'') []
             (new_brain example_settings [])) \<noteq> Suppressed"
    by (simp add: brain_eval py_simps)
  have 2: "\<forall>x\<in>set [EventEnd (Some (py ''ok'')), EventBegin 1000.5 (py ''dawn'') [],
               SetVoiceActive False].
             \<forall>t d. x = EventBegin t (py ''dawn'') d
               \<longrightarrow> t - 1000 < cooldown_of example_settings (py ''dawn'')"
    by (simp add: cooldown_of_def example_settings_def py_simps)
  have 3: "(1001::rat) - 1000 < cooldown_of example_settings (py ''dawn'')"
    by (simp add: cooldown_of_def example_settings_def py_simps)
  show ?thesis
    by (rule cooldown_suppresses_second_call [OF 1 2 3])
qed

lemmas run_eval = event_end_def think_end_def finish_def call_claude_def add_assistant_def
  queue_full_def

text \<open>
  C4, counterexample to the claim for every first call: a \<open>dawn\<close> event that arrives at
  time 1001 while a \<open>mob_spawn\<close> event is in flight is queued and returns \<open>None\<close>
  without a stamp; once the lock is free, a second \<open>dawn\<close> event at time 1002, one second
  after the first, is processed and returns a reply.
\<close>

theorem second_call_not_suppressed_counterexample:
  "fst (run ascii_builtins example_settings
      [EventBegin 1000 (py ''mob_spawn'') [], EventBegin 1001 (py ''dawn'') [],
       EventEnd (Some (py ''ok'')), EventBegin 1002 (py ''dawn'') [],
       EventEnd (Some (py ''hi''))]
      (new_brain example_settings [])) ! 1 = Returned None
   \<and> fst (run ascii_builtins example_settings
      [EventBegin 1000 (py ''mob_spawn'') [], EventBegin 1001 (py ''dawn'') [],
       EventEnd (Some (py ''ok'')), EventBegin 1002 (py ''dawn'') [],
       EventEnd (Some (py ''hi''))]
      (new_brain example_settings [])) ! 4 = Returned (Some (py ''hi'', []))
   \<and> (1002::rat) - 1001 < cooldown_of example_settings (py ''dawn'')"
proof -
  let ?B = ascii_builtins and ?S = example_settings
  let ?u1 = "\<lparr>role = py ''user'',
    content = py ''[EVENT] A something just spawned ? blocks away from us.''\<rparr>"
  let ?a1 = "\<lparr>role = py ''assistant'', content = py ''ok''\<rparr>"
  let ?u2 = "\<lparr>role = py ''user'',
    content = py ''[EVENT] Sun'' @ [39] @ py ''s coming up. We made it through the night.''\<rparr>"
  let ?a2 = "\<lparr>role = py ''assistant'', content = py ''hi''\<rparr>"
  let ?s0 = "new_brain ?S []"
  let ?s1 = "?s0\<lparr>history := \<lparr>hmax = 10, turns = [?u1]\<rparr>,
    last_event_time := [py ''mob_spawn'' \<mapsto> 1000], proactive_lock := True\<rparr>"
  let ?s2 = "?s1\<lparr>proactive_queue := [(py ''dawn'', [])]\<rparr>"
  let ?s3 = "?s2\<lparr>history := \<lparr>hmax = 10, turns = [?u1, ?a1]\<rparr>, proactive_lock := False\<rparr>"
  let ?s4 = "?s3\<lparr>history := \<lparr>hmax = 10, turns = [?u1, ?a1, ?u2]\<rparr>,
    last_event_time := [py ''mob_spawn'' \<mapsto> 1000, py ''dawn'' \<mapsto> 1002],
    proactive_lock := True\<rparr>"
  let ?s5 = "?s4\<lparr>history := \<lparr>hmax = 10, turns = [?u1, ?a1, ?u2, ?a2]\<rparr>,
    proactive_lock := False\<rparr>"
  have 1: "step ?B ?S (EventBegin 1000 (py ''mob_spawn'') []) ?s0 = (Waiting [?u1], ?s1)"
    by (simp add: brain_eval py_simps ascii_eval)
  have 2: "step ?B ?S (EventBegin 1001 (py ''dawn'') []) ?s1 = (Returned None, ?s2)"
    by (simp add: brain_eval py_simps queue_full_def)
  have 3: "step ?B ?S (EventEnd (Some (py ''ok''))) ?s2 = (Returned (Some (py ''ok'', [])), ?s3)"
    by (simp add: brain_eval run_eval extractor_eval last_n_def)
  have 4: "step ?B ?S (EventBegin 1002 (py ''dawn'') []) ?s3 = (Waiting [?u1, ?a1, ?u2], ?s4)"
    by (simp add: brain_eval py_simps ascii_eval)
  have 5: "step ?B ?S (EventEnd (Some (py ''hi''))) ?s4 = (Returned (Some (py ''hi'', [])), ?s5)"
    by (simp add: brain_eval run_eval extractor_eval last_n_def)
  have r: "fst (run ?B ?S
      [EventBegin 1000 (py ''mob_spawn'') [], EventBegin 1001 (py ''dawn'') [],
       EventEnd (Some (py ''ok'')), EventBegin 1002 (py ''dawn'') [],
       EventEnd (Some (py ''hi''))] ?s0)
    = [Waiting [?u1], Returned None, Returned (Some (py ''ok'', [])),
       Waiting [?u1, ?a1, ?u2], Returned (Some (py ''hi'', []))]"
    by (simp only: run.simps Let_def 1 2 3 4 5 fst_conv snd_conv)
  show ?thesis
    unfolding r by (simp add: cooldown_of_def example_settings_def py_simps)
qed

text \<open>
  No step reads the content of the pending queue or removes from it: the outcome of a
  step and the rest of the state do not depend on the queue, and the queue only grows
  at its end.
\<close>

lemma step_queue_indep:
  "fst (step B S x (s\<lparr>proactive_queue := q\<rparr>)) = fst (step B S x s)
   \<and> (snd (step B S x (s\<lparr>proactive_queue := q\<rparr>)))\<lparr>proactive_queue := []\<rparr>
       = (snd (step B S x s))\<lparr>proactive_queue := []\<rparr>"
proof (cases x)
  case (UpdateGameState gs)
  then show ?thesis by (simp add: update_game_state_def)
next
  case (SetVoiceActive b)
  then show ?thesis by (simp add: set_voice_active_def)
next
  case (ThinkBegin u)
  then show ?thesis
    by (simp add: think_begin_def Let_def split: option.splits)
next
  case (ThinkEnd r)
  then show ?thesis
    by (simp add: think_end_def finish_def Let_def split: option.splits sum.splits)
next
  case (EventBegin now e d)
  then show ?thesis
    by (simp add: event_begin_def Let_def last_of_def queue_full_def split: option.splits)
next
  case (EventEnd r)
  then show ?thesis
    by (simp add: event_end_def finish_def Let_def split: option.splits sum.splits)
qed

lemma step_queue_prefix:
  "prefix (proactive_queue s) (proactive_queue (snd (step B S x s)))"
proof (cases x)
  case (UpdateGameState gs)
  then show ?thesis by (auto simp: update_game_state_def)
next
  case (SetVoiceActive b)
  then show ?thesis by (auto simp: set_voice_active_def)
next
  case (ThinkBegin u)
  then show ?thesis
    by (auto simp: think_begin_def Let_def split: option.splits)
next
  case (ThinkEnd r)
  then show ?thesis
    by (auto simp: think_end_def finish_def Let_def split: option.splits sum.splits)
next
  case (EventBegin now e d)
  then show ?thesis
    by (auto simp: event_begin_def Let_def split: option.splits)
next
  case (EventEnd r)
  then show ?thesis
    by (auto simp: event_end_def finish_def Let_def split: option.splits sum.splits)
qed

lemma run_queue_prefix: "prefix (proactive_queue s) (proactive_queue (snd (run B S ops s)))"
proof (induction ops arbitrary: s)
  case Nil
  show ?case by simp
next
  case (Cons x xs)
  have "prefix (proactive_queue s) (proactive_queue (snd (step B S x s)))"
    by (rule step_queue_prefix)
  also have "prefix \<dots> (proactive_queue (snd (run B S xs (snd (step B S x s)))))"
    by (rule Cons.IH)
  finally show ?case by (simp add: Let_def)
qed

lemma queue_override:
  "t\<lparr>proactive_queue := []\<rparr> = s\<lparr>proactive_queue := []\<rparr> \<Longrightarrow>
   t = s\<lparr>proactive_queue := proactive_queue t\<rparr>"
  by (cases s, cases t) simp

lemma run_queue_indep: "fst (run B S ops (s\<lparr>proactive_queue := q\<rparr>)) = fst (run B S ops s)"
proof (induction ops arbitrary: s q)
  case Nil
  show ?case by simp
next
  case (Cons x xs)
  let ?t = "snd (step B S x (s\<lparr>proactive_queue := q\<rparr>))"
  let ?s = "snd (step B S x s)"
  have "?t = ?s\<lparr>proactive_queue := proactive_queue ?t\<rparr>"
    using step_queue_indep [of B S x q s] by (intro queue_override) simp
  then have "fst (run B S xs ?t) = fst (run B S xs ?s)"
    using Cons.IH by metis
  then show ?case
    using step_queue_indep [of B S x q s] by (simp add: Let_def)
qed

text \<open>
  C8. An event put into the pending queue is never processed afterwards: over every
  sequence of steps of the engine the queue keeps what it held, in place (nothing is ever
  removed from it), and the outcomes given to the callers, replies and completion
  requests alike, are the same whatever the queue holds.
\<close>

theorem queued_events_never_processed:
  "prefix (proactive_queue s) (proactive_queue (snd (run B S ops s)))
   \<and> fst (run B S ops (s\<lparr>proactive_queue := q\<rparr>)) = fst (run B S ops s)"
  by (simp add: run_queue_prefix run_queue_indep)

text \<open>The queue is reached: an admissible event that finds the lock held is stored.\<close>

lemma event_queued_while_locked:
  "\<not> voice_active s \<Longrightarrow> \<not> now - last_of s event_type < cooldown_of S event_type \<Longrightarrow>
   proactive_lock s \<Longrightarrow> \<not> queue_full S s \<Longrightarrow>
   event_begin B S now event_type data s
     = (Suppressed, s\<lparr>proactive_queue := proactive_queue s @ [(event_type, data)]\<rparr>)"
  by (simp add: event_begin_def)

section \<open>Properties of the bridge server\<close>

text \<open>
  C9. For every action, parameters and chat text, \<open>send_action\<close> and \<open>send_chat\<close> called
  while there is no live connection return false, raise nothing, and leave the server as
  it was: nothing is delivered and nothing is kept for later.
\<close>

theorem send_without_connection:
  "connection s = None \<Longrightarrow>
   send_action net act ps s = (False, s) \<and> send_chat net message s = (False, s)"
  by (simp add: send_action_def send_chat_def)

text \<open>C9, witness: a server that never had a connection.\<close>

theorem send_without_connection_witness:
  "connection \<lparr>connection = None, delivered = []\<rparr> = None
   \<and> send_action Delivers (py ''flee'') None \<lparr>connection = None, delivered = []\<rparr>
     = (False, \<lparr>connection = None, delivered = []\<rparr>)
   \<and> send_chat Delivers (py ''hello'') \<lparr>connection = None, delivered = []\<rparr>
     = (False, \<lparr>connection = None, delivered = []\<rparr>)"
  using send_without_connection [of "\<lparr>connection = None, delivered = []\<rparr>" Delivers
    "py ''flee''" None "py ''hello''"]
  by simp

end
